theory Spec2Isabelle
  imports Main "HOL-Library.Word" "HOL-Library.AList"
begin

unbundle bit_operations_syntax

section \<open>Bytes, readers and fixed-width encodings\<close>

text \<open>
  The Go sources serialise into an \<^verbatim>\<open>io.Writer\<close> and parse from an
  \<^verbatim>\<open>io.Reader\<close>. A writer is modelled by the list of bytes written, a reader by
  the list of bytes still unread. Every Go error return is a value \<open>Inl e\<close> of the
  type \<open>error + 'a\<close>.
\<close>

type_synonym byte = "8 word"

datatype error =
    ErrEOF
  | ErrUnexpectedEOF
  | ErrNonCanonicalVarInt
  | ErrVarBytesTooLong
  | ErrTimeMarshal
  | ErrTimeUnmarshal
  | ErrTlvDecode
  | ErrParsePubKey
  | ErrValidateInvoice
  | ErrDuplicateInvoice
  | ErrNoInvoicesCreated
  | ErrInvoiceNotFound
  | ErrUnknownHtlc
  | ErrCancelNotAccepted
  | ErrHtlcAlreadyExists
  | ErrPreimageMismatch
  | ErrCallback
  | ErrPanic

definition bindE :: "error + 'a \<Rightarrow> ('a \<Rightarrow> error + 'b) \<Rightarrow> error + 'b" where
  "bindE m f = (case m of Inl e \<Rightarrow> Inl e | Inr x \<Rightarrow> f x)"

text \<open>\<^verbatim>\<open>binary.BigEndian.PutUintN\<close>: the \<open>n\<close> low-order bytes of a number,
  most significant first, and the number a byte string denotes.\<close>

fun be_bytes :: "nat \<Rightarrow> nat \<Rightarrow> byte list" where
  "be_bytes 0 x = []"
| "be_bytes (Suc n) x = be_bytes n (x div 256) @ [of_nat (x mod 256)]"

definition be_nat :: "byte list \<Rightarrow> nat" where
  "be_nat bs = foldl (\<lambda>a b. a * 256 + unat b) 0 bs"

text \<open>\<^verbatim>\<open>io.ReadFull(r, buf)\<close> with \<open>len(buf) = n\<close>: \<^verbatim>\<open>io.EOF\<close> when nothing
  could be read, \<^verbatim>\<open>io.ErrUnexpectedEOF\<close> when the input ends inside the buffer.\<close>

definition readFull :: "nat \<Rightarrow> byte list \<Rightarrow> error + (byte list \<times> byte list)" where
  "readFull n r =
     (if n = 0 then Inr ([], r)
      else if r = [] then Inl ErrEOF
      else if length r < n then Inl ErrUnexpectedEOF
      else Inr (take n r, drop n r))"

text \<open>Reading an \<open>n\<close>-byte big-endian integer into a machine word
  (\<^verbatim>\<open>binary.Read(r, byteOrder, &x)\<close> for a fixed-size \<open>x\<close>).\<close>

definition read_be :: "nat \<Rightarrow> byte list \<Rightarrow> error + ('a::len word \<times> byte list)" where
  "read_be n r = bindE (readFull n r) (\<lambda>(bs, r'). Inr (of_nat (be_nat bs), r'))"

section \<open>lnwire: the AcceptChannel message\<close>

text \<open>
  \<^verbatim>\<open>src/lnwire/accept_channel.go\<close>. The struct's six keys are pointers to
  \<^verbatim>\<open>secp256k1.PublicKey\<close>; the key type is a parameter \<open>'k\<close> of the record, and a
  message is taken with all six keys present. Amounts (\<^verbatim>\<open>dcrutil.Amount\<close>, an
  \<^verbatim>\<open>int64\<close>, and \<^verbatim>\<open>MilliAtom\<close>, a \<^verbatim>\<open>uint64\<close>) are 64-bit words; the
  \<^verbatim>\<open>[32]byte\<close> channel id is a 256-bit word read big-endian.
\<close>

record 'k AcceptChannel =
  PendingChannelID :: "256 word"
  DustLimit :: "64 word"
  MaxValueInFlight :: "64 word"
  ChannelReserve :: "64 word"
  HtlcMinimum :: "64 word"
  MinAcceptDepth :: "32 word"
  CsvDelay :: "16 word"
  MaxAcceptedHTLCs :: "16 word"
  FundingKey :: 'k
  RevocationPoint :: 'k
  PaymentPoint :: 'k
  DelayedPaymentPoint :: 'k
  HtlcPoint :: 'k
  FirstCommitmentPoint :: 'k

text \<open>
  Modelled from the spec: \<^verbatim>\<open>WriteElements\<close> and \<^verbatim>\<open>ReadElements\<close> of package
  lnwire are not among the sources. Section 6 of the specification gives the layout: the
  32-byte pending channel id, four 8-byte amounts, the 4-byte minimum accept depth, the
  2-byte csv delay and maximum accepted htlcs, all integers big-endian, then six 33-byte
  compressed public keys. The key codec itself (point compression and parsing on
  secp256k1) is a parameter: \<open>ser\<close> compresses a key, \<open>parse\<close> parses 33 bytes and
  gives \<open>None\<close> when they are no curve point.
\<close>

definition WriteElement_uint :: "nat \<Rightarrow> 'a::len word \<Rightarrow> byte list" where
  "WriteElement_uint n w = be_bytes n (unat w)"

definition ReadElement_key :: "(byte list \<Rightarrow> 'k option) \<Rightarrow> byte list \<Rightarrow> error + ('k \<times> byte list)" where
  "ReadElement_key parse r =
     bindE (readFull 33 r) (\<lambda>(bs, r').
       case parse bs of None \<Rightarrow> Inl ErrParsePubKey | Some k \<Rightarrow> Inr (k, r'))"

text \<open>\<^verbatim>\<open>AcceptChannel.Encode\<close>: the fourteen elements in the order of the source.\<close>

definition Encode :: "('k \<Rightarrow> byte list) \<Rightarrow> 'k AcceptChannel \<Rightarrow> byte list" where
  "Encode ser a =
     WriteElement_uint 32 (PendingChannelID a) @
     WriteElement_uint 8 (DustLimit a) @
     WriteElement_uint 8 (MaxValueInFlight a) @
     WriteElement_uint 8 (ChannelReserve a) @
     WriteElement_uint 8 (HtlcMinimum a) @
     WriteElement_uint 4 (MinAcceptDepth a) @
     WriteElement_uint 2 (CsvDelay a) @
     WriteElement_uint 2 (MaxAcceptedHTLCs a) @
     ser (FundingKey a) @
     ser (RevocationPoint a) @
     ser (PaymentPoint a) @
     ser (DelayedPaymentPoint a) @
     ser (HtlcPoint a) @
     ser (FirstCommitmentPoint a)"

text \<open>\<^verbatim>\<open>AcceptChannel.Decode\<close>: the same fourteen elements read in order; the first
  failing read is the error returned.\<close>

definition Decode :: "(byte list \<Rightarrow> 'k option) \<Rightarrow> byte list \<Rightarrow> error + 'k AcceptChannel" where
  "Decode parse r0 =
     bindE (read_be 32 r0) (\<lambda>(pid, r1).
     bindE (read_be 8 r1) (\<lambda>(dust, r2).
     bindE (read_be 8 r2) (\<lambda>(maxv, r3).
     bindE (read_be 8 r3) (\<lambda>(rsv, r4).
     bindE (read_be 8 r4) (\<lambda>(hmin, r5).
     bindE (read_be 4 r5) (\<lambda>(depth, r6).
     bindE (read_be 2 r6) (\<lambda>(csv, r7).
     bindE (read_be 2 r7) (\<lambda>(maxh, r8).
     bindE (ReadElement_key parse r8) (\<lambda>(k1, r9).
     bindE (ReadElement_key parse r9) (\<lambda>(k2, r10).
     bindE (ReadElement_key parse r10) (\<lambda>(k3, r11).
     bindE (ReadElement_key parse r11) (\<lambda>(k4, r12).
     bindE (ReadElement_key parse r12) (\<lambda>(k5, r13).
     bindE (ReadElement_key parse r13) (\<lambda>(k6, r14).
       Inr \<lparr> PendingChannelID = pid, DustLimit = dust, MaxValueInFlight = maxv,
             ChannelReserve = rsv, HtlcMinimum = hmin, MinAcceptDepth = depth,
             CsvDelay = csv, MaxAcceptedHTLCs = maxh, FundingKey = k1,
             RevocationPoint = k2, PaymentPoint = k3, DelayedPaymentPoint = k4,
             HtlcPoint = k5, FirstCommitmentPoint = k6 \<rparr>))))))))))))))"

text \<open>\<^verbatim>\<open>AcceptChannel.MaxPayloadLength\<close>: the constant of the source,
  \<^verbatim>\<open>32 + (8 * 4) + (4 * 1) + (2 * 2) + (33 * 6)\<close>.\<close>

definition MaxPayloadLength :: nat where
  "MaxPayloadLength = 270"

text \<open>The codec of the witness: a key is its own 33-byte compressed form, kept as a
  264-bit number.\<close>

definition ser33 :: "264 word \<Rightarrow> byte list" where
  "ser33 k = be_bytes 33 (unat k)"

definition parse33 :: "byte list \<Rightarrow> 264 word option" where
  "parse33 bs = Some (of_nat (be_nat bs))"

definition example_accept :: "(264 word) AcceptChannel" where
  "example_accept =
     \<lparr> PendingChannelID = 7, DustLimit = 6030, MaxValueInFlight = 1000000000,
       ChannelReserve = 10000, HtlcMinimum = 1000, MinAcceptDepth = 3, CsvDelay = 144,
       MaxAcceptedHTLCs = 483, FundingKey = 2, RevocationPoint = 3, PaymentPoint = 4,
       DelayedPaymentPoint = 5, HtlcPoint = 6, FirstCommitmentPoint = 8 \<rparr>"

section \<open>Go's time.Time\<close>

text \<open>
  A \<^verbatim>\<open>time.Time\<close> of the Go standard library: the seconds since January 1 of
  year 1, 00:00:00 UTC (an \<^verbatim>\<open>int64\<close>), the nanoseconds within the second (an
  \<^verbatim>\<open>int32\<close>), the monotonic clock reading when the value carries one, and the
  location. A location is UTC, the process's local zone, or a fixed zone given by its
  offset in seconds east of UTC. The offset of the local zone at an instant depends on the
  machine; it is the parameter \<open>loff\<close> of every function that needs it.
\<close>

datatype Location = UTC | Local | FixedZone int

record Time =
  t_sec :: "64 word"
  t_nsec :: "32 word"
  t_mono :: "64 word option"
  t_loc :: Location

text \<open>The zero value \<^verbatim>\<open>time.Time{}\<close>.\<close>

definition zeroTime :: Time where
  "zeroTime = \<lparr> t_sec = 0, t_nsec = 0, t_mono = None, t_loc = UTC \<rparr>"

text \<open>\<^verbatim>\<open>unixToInternal\<close>: the seconds from year 1 to 1970.\<close>

definition unixToInternal :: int where
  "unixToInternal = 62135596800"

text \<open>\<^verbatim>\<open>Time.UnixNano\<close>: \<^verbatim>\<open>(t.unixSec())*1e9 + int64(t.nsec())\<close> in
  \<^verbatim>\<open>int64\<close> arithmetic, which wraps around.\<close>

definition UnixNano :: "Time \<Rightarrow> 64 word" where
  "UnixNano t = (t_sec t - of_int unixToInternal) * 1000000000 + scast (t_nsec t)"

text \<open>\<^verbatim>\<open>time.Unix(0, nsec)\<close>: the seconds are the quotient rounded down, the
  nanoseconds the non-negative remainder; the result is in the local zone.\<close>

definition Unix0 :: "64 word \<Rightarrow> Time" where
  "Unix0 ns =
     \<lparr> t_sec = of_int (sint ns div 1000000000 + unixToInternal),
       t_nsec = of_int (sint ns mod 1000000000),
       t_mono = None, t_loc = Local \<rparr>"

text \<open>The zone offset in minutes that \<^verbatim>\<open>Time.MarshalBinary\<close> (version 1) writes:
  \<open>-1\<close> for UTC; an offset with a fractional minute, or outside the 16-bit range, or
  equal to \<open>-1\<close> minute, is an error.\<close>

definition zoneMinutes :: "(64 word \<Rightarrow> int) \<Rightarrow> Time \<Rightarrow> error + int" where
  "zoneMinutes loff t =
     (case t_loc t of
        UTC \<Rightarrow> Inr (- 1)
      | _ \<Rightarrow>
          (let offset = (case t_loc t of FixedZone z \<Rightarrow> z | _ \<Rightarrow> loff (t_sec t)) in
           if offset mod 60 \<noteq> 0 then Inl ErrTimeMarshal
           else if offset div 60 < - 32768 \<or> offset div 60 = - 1 \<or> offset div 60 > 32767
             then Inl ErrTimeMarshal
           else Inr (offset div 60)))"

definition MarshalBinary :: "(64 word \<Rightarrow> int) \<Rightarrow> Time \<Rightarrow> error + byte list" where
  "MarshalBinary loff t =
     bindE (zoneMinutes loff t) (\<lambda>offsetMin.
       Inr ([1] @ be_bytes 8 (unat (t_sec t)) @ be_bytes 4 (unat (t_nsec t))
            @ be_bytes 2 (unat (of_int offsetMin :: 16 word))))"

definition UnmarshalBinary :: "(64 word \<Rightarrow> int) \<Rightarrow> byte list \<Rightarrow> error + Time" where
  "UnmarshalBinary loff buf =
     (if buf = [] then Inl ErrTimeUnmarshal
      else if hd buf \<noteq> 1 then Inl ErrTimeUnmarshal
      else if length buf \<noteq> 15 then Inl ErrTimeUnmarshal
      else
        (let sec = (of_nat (be_nat (take 8 (drop 1 buf))) :: 64 word);
             nsec = (of_nat (be_nat (take 4 (drop 9 buf))) :: 32 word);
             offset = sint (of_nat (be_nat (drop 13 buf)) :: 16 word) * 60
         in Inr \<lparr> t_sec = sec, t_nsec = nsec, t_mono = None,
                  t_loc = (if offset = - 60 then UTC
                           else if offset = loff sec then Local
                           else FixedZone offset) \<rparr>))"

section \<open>dcrd wire: variable-length integers and byte strings\<close>

definition le_bytes :: "nat \<Rightarrow> nat \<Rightarrow> byte list" where
  "le_bytes n x = rev (be_bytes n x)"

definition le_nat :: "byte list \<Rightarrow> nat" where
  "le_nat bs = be_nat (rev bs)"

text \<open>\<^verbatim>\<open>wire.WriteVarInt\<close> and \<^verbatim>\<open>wire.ReadVarInt\<close>; the reader refuses an
  encoding that is longer than needed.\<close>

definition WriteVarInt :: "nat \<Rightarrow> byte list" where
  "WriteVarInt v =
     (if v < 0xfd then [of_nat v]
      else if v \<le> 0xffff then 0xfd # le_bytes 2 v
      else if v \<le> 0xffffffff then 0xfe # le_bytes 4 v
      else 0xff # le_bytes 8 v)"

definition ReadVarInt_sized :: "nat \<Rightarrow> nat \<Rightarrow> byte list \<Rightarrow> error + (nat \<times> byte list)" where
  "ReadVarInt_sized n minv r =
     bindE (readFull n r) (\<lambda>(bs, r').
       if le_nat bs < minv then Inl ErrNonCanonicalVarInt else Inr (le_nat bs, r'))"

definition ReadVarInt :: "byte list \<Rightarrow> error + (nat \<times> byte list)" where
  "ReadVarInt r =
     bindE (readFull 1 r) (\<lambda>(d, r').
       if hd d = 0xff then ReadVarInt_sized 8 0x100000000 r'
       else if hd d = 0xfe then ReadVarInt_sized 4 0x10000 r'
       else if hd d = 0xfd then ReadVarInt_sized 2 0xfd r'
       else Inr (unat (hd d), r'))"

definition WriteVarBytes :: "byte list \<Rightarrow> byte list" where
  "WriteVarBytes bs = WriteVarInt (length bs) @ bs"

definition ReadVarBytes :: "nat \<Rightarrow> byte list \<Rightarrow> error + (byte list \<times> byte list)" where
  "ReadVarBytes maxAllowed r =
     bindE (ReadVarInt r) (\<lambda>(count, r').
       if count > maxAllowed then Inl ErrVarBytesTooLong else readFull count r')"

section \<open>channeldb: invoices\<close>

text \<open>
  \<^verbatim>\<open>src/channeldb/invoices.go\<close>. \<^verbatim>\<open>ContractState\<close> and \<^verbatim>\<open>HtlcState\<close> are
  \<^verbatim>\<open>uint8\<close> in the source, so a stored byte outside the named constants is a value
  of the type too.
\<close>

definition MaxMemoSize :: nat where "MaxMemoSize = 1024"
definition MaxReceiptSize :: nat where "MaxReceiptSize = 1024"
definition MaxPaymentRequestSize :: nat where "MaxPaymentRequestSize = 4096"

type_synonym ContractState = "8 word"

definition ContractOpen :: ContractState where "ContractOpen = 0"
definition ContractSettled :: ContractState where "ContractSettled = 1"
definition ContractCanceled :: ContractState where "ContractCanceled = 2"
definition ContractAccepted :: ContractState where "ContractAccepted = 3"

type_synonym HtlcState = "8 word"

definition HtlcStateAccepted :: HtlcState where "HtlcStateAccepted = 0"
definition HtlcStateCanceled :: HtlcState where "HtlcStateCanceled = 1"
definition HtlcStateSettled :: HtlcState where "HtlcStateSettled = 2"

record ContractTerm =
  PaymentPreimage :: "256 word"
  Value :: "64 word"
  State :: ContractState

text \<open>
  Modelled from the spec: the type \<^verbatim>\<open>CircuitKey\<close> and the conversions
  \<^verbatim>\<open>ShortChannelID.ToUint64\<close> and \<^verbatim>\<open>NewShortChanIDFromInt\<close> are not among the
  sources. A circuit key is the short channel id and the htlc index of the incoming side
  (section 3); the short channel id is kept as the 64-bit integer that is stored
  under the type code \<open>chan_id\<close>.
\<close>

record CircuitKey =
  ChanID :: "64 word"
  HtlcID :: "64 word"

record InvoiceHTLC =
  Amt :: "64 word"
  AcceptHeight :: "32 word"
  AcceptTime :: Time
  ResolveTime :: Time
  Expiry_htlc :: "32 word"
  State_htlc :: HtlcState

text \<open>
  The \<^verbatim>\<open>Htlcs\<close> map of an invoice is the list of its entries, in the order in which
  a \<^verbatim>\<open>range\<close> loop visits them; a Go map holds every key once. The type \<open>'h\<close> of the
  entries is \<open>InvoiceHTLC\<close> where the records are read by value, and an address where the
  map's pointers matter (\<open>copyInvoice\<close> and the update callback).
\<close>

record 'h Invoice =
  Memo :: "byte list"
  Receipt :: "byte list"
  PaymentRequest :: "byte list"
  FinalCltvDelta :: "32 word"
  Expiry :: "64 word"
  CreationDate :: Time
  SettleDate :: Time
  Terms :: ContractTerm
  AddIndex :: "64 word"
  SettleIndex :: "64 word"
  AmtPaid :: "64 word"
  Htlcs :: "(CircuitKey \<times> 'h) list"

record HtlcAcceptDesc =
  AcceptHeight_desc :: "32 word"
  Amt_desc :: "64 word"
  Expiry_desc :: "32 word"

text \<open>In \<^verbatim>\<open>InvoiceUpdateDesc.Htlcs\<close> a \<^verbatim>\<open>nil\<close> value (here \<open>None\<close>) cancels the
  htlc and a set value adds it.\<close>

record InvoiceUpdateDesc =
  State_upd :: ContractState
  Htlcs_upd :: "(CircuitKey \<times> HtlcAcceptDesc option) list"
  Preimage :: "256 word"

definition validateInvoice :: "'h Invoice \<Rightarrow> error + unit" where
  "validateInvoice i =
     (if length (Memo i) > MaxMemoSize then Inl ErrValidateInvoice
      else if length (Receipt i) > MaxReceiptSize then Inl ErrValidateInvoice
      else if length (PaymentRequest i) > MaxPaymentRequestSize then Inl ErrValidateInvoice
      else Inr ())"

subsection \<open>The tlv stream of an htlc\<close>

text \<open>
  Modelled from the spec: package \<^verbatim>\<open>tlv\<close> is not among the sources. Section 6 says
  that an htlc is a type-length-value stream with the type codes chan_id=1, htlc_id=3,
  amount=5, accept_height=7, accept_time_ns=9, resolve_time_ns=11, expiry_height=13 and
  state=15. A record is its type, the length of its value and the value, type and length
  in one byte each (both are below \<open>0xfd\<close> here); integers are big-endian. The decoder
  reads records of increasing type, checks the length of a record it knows, skips an
  unknown record of odd type, and leaves at zero the fields whose record is missing.
\<close>

definition tlv_record :: "nat \<Rightarrow> byte list \<Rightarrow> byte list" where
  "tlv_record t v = [of_nat t, of_nat (length v)] @ v"

record HtlcFields =
  f_chanID :: "64 word"
  f_htlcID :: "64 word"
  f_amt :: "64 word"
  f_acceptHeight :: "32 word"
  f_acceptTime :: "64 word"
  f_resolveTime :: "64 word"
  f_expiryHeight :: "32 word"
  f_state :: "8 word"

definition zeroFields :: HtlcFields where
  "zeroFields = \<lparr> f_chanID = 0, f_htlcID = 0, f_amt = 0, f_acceptHeight = 0,
     f_acceptTime = 0, f_resolveTime = 0, f_expiryHeight = 0, f_state = 0 \<rparr>"

definition fieldSize :: "nat \<Rightarrow> nat option" where
  "fieldSize t =
     (if t = 1 \<or> t = 3 \<or> t = 5 \<or> t = 9 \<or> t = 11 then Some 8
      else if t = 7 \<or> t = 13 then Some 4
      else if t = 15 then Some 1
      else None)"

definition setField :: "nat \<Rightarrow> byte list \<Rightarrow> HtlcFields \<Rightarrow> HtlcFields" where
  "setField t v f =
     (if t = 1 then f\<lparr>f_chanID := of_nat (be_nat v)\<rparr>
      else if t = 3 then f\<lparr>f_htlcID := of_nat (be_nat v)\<rparr>
      else if t = 5 then f\<lparr>f_amt := of_nat (be_nat v)\<rparr>
      else if t = 7 then f\<lparr>f_acceptHeight := of_nat (be_nat v)\<rparr>
      else if t = 9 then f\<lparr>f_acceptTime := of_nat (be_nat v)\<rparr>
      else if t = 11 then f\<lparr>f_resolveTime := of_nat (be_nat v)\<rparr>
      else if t = 13 then f\<lparr>f_expiryHeight := of_nat (be_nat v)\<rparr>
      else if t = 15 then f\<lparr>f_state := of_nat (be_nat v)\<rparr>
      else f)"

fun tlvDecode :: "nat \<Rightarrow> HtlcFields \<Rightarrow> byte list \<Rightarrow> error + HtlcFields" where
  "tlvDecode minT f [] = Inr f"
| "tlvDecode minT f [t] = Inl ErrUnexpectedEOF"
| "tlvDecode minT f (t # l # rest) =
     (if unat t \<ge> 0xfd \<or> unat l \<ge> 0xfd then Inl ErrTlvDecode
      else if unat t < minT then Inl ErrTlvDecode
      else (case fieldSize (unat t) of
              Some n \<Rightarrow>
                if unat l \<noteq> n then Inl ErrTlvDecode
                else if length rest < n then Inl ErrUnexpectedEOF
                else tlvDecode (unat t + 1) (setField (unat t) (take n rest) f) (drop n rest)
            | None \<Rightarrow>
                if even (unat t) then Inl ErrTlvDecode
                else if length rest < unat l then Inl ErrUnexpectedEOF
                else tlvDecode (unat t + 1) f (drop (unat l) rest)))"

subsection \<open>serializeInvoice and deserializeInvoice\<close>

text \<open>\<^verbatim>\<open>serializeHtlcs\<close>: for every entry of the map, the 8-byte length of its tlv
  stream and the stream.\<close>

definition htlcStream :: "CircuitKey \<Rightarrow> InvoiceHTLC \<Rightarrow> byte list" where
  "htlcStream key htlc =
     tlv_record 1 (be_bytes 8 (unat (ChanID key))) @
     tlv_record 3 (be_bytes 8 (unat (HtlcID key))) @
     tlv_record 5 (be_bytes 8 (unat (Amt htlc))) @
     tlv_record 7 (be_bytes 4 (unat (AcceptHeight htlc))) @
     tlv_record 9 (be_bytes 8 (unat (UnixNano (AcceptTime htlc)))) @
     tlv_record 11 (be_bytes 8 (unat (UnixNano (ResolveTime htlc)))) @
     tlv_record 13 (be_bytes 4 (unat (Expiry_htlc htlc))) @
     tlv_record 15 (be_bytes 1 (unat (State_htlc htlc)))"

fun serializeHtlcs :: "(CircuitKey \<times> InvoiceHTLC) list \<Rightarrow> byte list" where
  "serializeHtlcs [] = []"
| "serializeHtlcs ((key, htlc) # htlcs) =
     be_bytes 8 (length (htlcStream key htlc)) @ htlcStream key htlc @ serializeHtlcs htlcs"

definition serializeInvoice :: "(64 word \<Rightarrow> int) \<Rightarrow> InvoiceHTLC Invoice \<Rightarrow> error + byte list" where
  "serializeInvoice loff i =
     bindE (MarshalBinary loff (CreationDate i)) (\<lambda>birthBytes.
     bindE (MarshalBinary loff (SettleDate i)) (\<lambda>settleBytes.
       Inr (WriteVarBytes (Memo i) @
            WriteVarBytes (Receipt i) @
            WriteVarBytes (PaymentRequest i) @
            be_bytes 4 (unat (FinalCltvDelta i)) @
            be_bytes 8 (unat (Expiry i)) @
            WriteVarBytes birthBytes @
            WriteVarBytes settleBytes @
            be_bytes 32 (unat (PaymentPreimage (Terms i))) @
            be_bytes 8 (unat (Value (Terms i))) @
            be_bytes 1 (unat (State (Terms i))) @
            be_bytes 8 (unat (AddIndex i)) @
            be_bytes 8 (unat (SettleIndex i)) @
            be_bytes 8 (unat (AmtPaid i)) @
            serializeHtlcs (Htlcs i))))"

text \<open>The fields of a decoded stream as the map entry: the times come back through
  \<^verbatim>\<open>time.Unix(0, ns)\<close>.\<close>

definition htlcOfFields :: "HtlcFields \<Rightarrow> CircuitKey \<times> InvoiceHTLC" where
  "htlcOfFields f =
     (\<lparr> ChanID = f_chanID f, HtlcID = f_htlcID f \<rparr>,
      \<lparr> Amt = f_amt f, AcceptHeight = f_acceptHeight f,
        AcceptTime = Unix0 (f_acceptTime f), ResolveTime = Unix0 (f_resolveTime f),
        Expiry_htlc = f_expiryHeight f, State_htlc = f_state f \<rparr>)"

text \<open>The largest slice the Go runtime allocates on a 64-bit machine; \<^verbatim>\<open>make\<close>
  panics beyond it.\<close>

definition maxAlloc :: nat where
  "maxAlloc = 2 ^ 48"

text \<open>
  The loop of \<^verbatim>\<open>deserializeHtlcs\<close>. The length is read with \<^verbatim>\<open>binary.Read\<close>, and
  the loop ends when that read meets the end of the input. The stream is read with one
  \<^verbatim>\<open>Read\<close> of a \<^verbatim>\<open>bytes.Reader\<close>, which fails at the end of the input and
  otherwise copies what is there, leaving the rest of the buffer zero.
\<close>

function deserializeHtlcs_loop ::
  "(CircuitKey \<times> InvoiceHTLC) list \<Rightarrow> byte list \<Rightarrow> error + (CircuitKey \<times> InvoiceHTLC) list" where
  "deserializeHtlcs_loop htlcs r =
     (if r = [] then Inr htlcs
      else if length r < 8 then Inl ErrUnexpectedEOF
      else if be_nat (take 8 r) > maxAlloc then Inl ErrPanic
      else if drop 8 r = [] then Inl ErrEOF
      else
        (case tlvDecode 0 zeroFields
                (take (be_nat (take 8 r)) (drop 8 r)
                 @ replicate (be_nat (take 8 r) - length (drop 8 r)) 0) of
           Inl e \<Rightarrow> Inl e
         | Inr f \<Rightarrow>
             deserializeHtlcs_loop
               (AList.update (fst (htlcOfFields f)) (snd (htlcOfFields f)) htlcs)
               (drop (be_nat (take 8 r)) (drop 8 r))))"
  by pat_completeness auto
termination
  by (relation "measure (\<lambda>(htlcs, r). length r)") auto

declare deserializeHtlcs_loop.simps [simp del]

definition deserializeHtlcs :: "byte list \<Rightarrow> error + (CircuitKey \<times> InvoiceHTLC) list" where
  "deserializeHtlcs r = deserializeHtlcs_loop [] r"

definition readTime :: "(64 word \<Rightarrow> int) \<Rightarrow> byte list \<Rightarrow> error + (Time \<times> byte list)" where
  "readTime loff r =
     bindE (ReadVarBytes 300 r) (\<lambda>(bs, r').
     bindE (UnmarshalBinary loff bs) (\<lambda>t. Inr (t, r')))"

definition deserializeInvoice :: "(64 word \<Rightarrow> int) \<Rightarrow> byte list \<Rightarrow> error + InvoiceHTLC Invoice" where
  "deserializeInvoice loff r0 =
     bindE (ReadVarBytes MaxMemoSize r0) (\<lambda>(memo, r1).
     bindE (ReadVarBytes MaxReceiptSize r1) (\<lambda>(receipt, r2).
     bindE (ReadVarBytes MaxPaymentRequestSize r2) (\<lambda>(payReq, r3).
     bindE (read_be 4 r3) (\<lambda>(cltv, r4).
     bindE (read_be 8 r4) (\<lambda>(expiry, r5).
     bindE (readTime loff r5) (\<lambda>(birth, r6).
     bindE (readTime loff r6) (\<lambda>(settled, r7).
     bindE (read_be 32 r7) (\<lambda>(preimage, r8).
     bindE (read_be 8 r8) (\<lambda>(val, r9).
     bindE (read_be 1 r9) (\<lambda>(st, r10).
     bindE (read_be 8 r10) (\<lambda>(addIdx, r11).
     bindE (read_be 8 r11) (\<lambda>(settleIdx, r12).
     bindE (read_be 8 r12) (\<lambda>(amtPaid, r13).
     bindE (deserializeHtlcs r13) (\<lambda>htlcs.
       Inr \<lparr> Memo = memo, Receipt = receipt, PaymentRequest = payReq,
             FinalCltvDelta = cltv, Expiry = expiry, CreationDate = birth,
             SettleDate = settled,
             Terms = \<lparr> PaymentPreimage = preimage, Value = val, State = st \<rparr>,
             AddIndex = addIdx, SettleIndex = settleIdx, AmtPaid = amtPaid,
             Htlcs = htlcs \<rparr>))))))))))))))"

section \<open>The bolt database under the invoices\<close>

text \<open>
  A bolt bucket keeps its keys in the order of \<^verbatim>\<open>bytes.Compare\<close> and carries a
  64-bit sequence. A bucket is the list of its entries in key order and the sequence.
  \<^verbatim>\<open>Put\<close> is taken to succeed: bolt refuses only an empty or oversized key and a
  value of 2 GiB, and the keys written here have 3, 4, 8 or 32 bytes.
\<close>

type_synonym kvlist = "(byte list \<times> byte list) list"

record Bucket =
  entries :: kvlist
  sequence :: "64 word"

fun bytesLess :: "byte list \<Rightarrow> byte list \<Rightarrow> bool" where
  "bytesLess [] [] = False"
| "bytesLess [] (y # ys) = True"
| "bytesLess (x # xs) [] = False"
| "bytesLess (x # xs) (y # ys) = (x < y \<or> (x = y \<and> bytesLess xs ys))"

fun kvPut :: "byte list \<Rightarrow> byte list \<Rightarrow> kvlist \<Rightarrow> kvlist" where
  "kvPut k v [] = [(k, v)]"
| "kvPut k v ((k', v') # es) =
     (if k = k' then (k, v) # es
      else if bytesLess k k' then (k, v) # (k', v') # es
      else (k', v') # kvPut k v es)"

definition kvGet :: "byte list \<Rightarrow> kvlist \<Rightarrow> byte list option" where
  "kvGet k es = map_of es k"

definition emptyBucket :: Bucket where
  "emptyBucket = \<lparr> entries = [], sequence = 0 \<rparr>"

text \<open>\<^verbatim>\<open>CreateBucketIfNotExists\<close>.\<close>

definition createIfNotExists :: "Bucket option \<Rightarrow> Bucket" where
  "createIfNotExists b = (case b of None \<Rightarrow> emptyBucket | Some x \<Rightarrow> x)"

definition bucketPut :: "byte list \<Rightarrow> byte list \<Rightarrow> Bucket \<Rightarrow> Bucket" where
  "bucketPut k v b = b\<lparr>entries := kvPut k v (entries b)\<rparr>"

text \<open>\<^verbatim>\<open>NextSequence\<close>: the sequence is incremented and the new value returned.\<close>

definition NextSequence :: "Bucket \<Rightarrow> 64 word \<times> Bucket" where
  "NextSequence b = (sequence b + 1, b\<lparr>sequence := sequence b + 1\<rparr>)"

text \<open>A cursor is a position in the entries. \<^verbatim>\<open>Seek\<close> moves to the first key that
  is not below the sought one, \<^verbatim>\<open>Next\<close> to the following entry; both give
  \<^verbatim>\<open>nil\<close> past the last entry.\<close>

definition cursorSeek :: "byte list \<Rightarrow> kvlist \<Rightarrow> nat" where
  "cursorSeek k es = length (takeWhile (\<lambda>e. bytesLess (fst e) k) es)"

definition cursorNext :: "kvlist \<Rightarrow> nat \<Rightarrow> nat \<times> (byte list \<times> byte list) option" where
  "cursorNext es pos =
     (if pos + 1 < length es then (pos + 1, Some (es ! (pos + 1))) else (pos, None))"

text \<open>The top-level bucket \<^verbatim>\<open>invoices\<close>: the serialised invoices under their
  invoice numbers, and the three nested buckets, each of which may not exist yet. The
  database holds the top-level bucket or does not.\<close>

record InvoicesBucket =
  invoiceEntries :: kvlist
  invoiceIndexBucket :: "Bucket option"
  addIndexBucket :: "Bucket option"
  settleIndexBucket :: "Bucket option"

type_synonym DB = "InvoicesBucket option"

definition emptyInvoices :: InvoicesBucket where
  "emptyInvoices = \<lparr> invoiceEntries = [], invoiceIndexBucket = None,
     addIndexBucket = None, settleIndexBucket = None \<rparr>"

definition numInvoicesKey :: "byte list" where
  "numInvoicesKey = [110, 105, 107]"

section \<open>channeldb: the operations on invoices\<close>

definition fetchInvoice ::
  "(64 word \<Rightarrow> int) \<Rightarrow> byte list \<Rightarrow> kvlist \<Rightarrow> error + InvoiceHTLC Invoice" where
  "fetchInvoice loff invoiceNum invoices =
     (case kvGet invoiceNum invoices of
        None \<Rightarrow> Inl ErrInvoiceNotFound
      | Some invoiceBytes \<Rightarrow> deserializeInvoice loff invoiceBytes)"

text \<open>
  \<^verbatim>\<open>putInvoice\<close>. The result is the add index, the invoice with its \<^verbatim>\<open>AddIndex\<close>
  set, and the three buckets as written.
\<close>

definition putInvoice ::
  "(64 word \<Rightarrow> int) \<Rightarrow> kvlist \<Rightarrow> Bucket \<Rightarrow> Bucket \<Rightarrow> InvoiceHTLC Invoice \<Rightarrow> 32 word \<Rightarrow> 256 word
   \<Rightarrow> error + (64 word \<times> InvoiceHTLC Invoice \<times> kvlist \<times> Bucket \<times> Bucket)" where
  "putInvoice loff invoices invoiceIndex addIndex i invoiceNum paymentHash =
     (let invoiceKey = be_bytes 4 (unat invoiceNum);
          invoiceCounter = invoiceNum + 1;
          invoiceIndex1 = bucketPut numInvoicesKey (be_bytes 4 (unat invoiceCounter)) invoiceIndex;
          invoiceIndex2 = bucketPut (be_bytes 32 (unat paymentHash)) invoiceKey invoiceIndex1;
          (nextAddSeqNo, addIndex1) = NextSequence addIndex;
          addIndex2 = bucketPut (be_bytes 8 (unat nextAddSeqNo)) invoiceKey addIndex1;
          i' = i\<lparr>AddIndex := nextAddSeqNo\<rparr>
      in bindE (serializeInvoice loff i') (\<lambda>buf.
           Inr (nextAddSeqNo, i', kvPut invoiceKey buf invoices, invoiceIndex2, addIndex2)))"

text \<open>
  \<^verbatim>\<open>AddInvoice\<close>. The transaction is rolled back on an error, so the database of the
  result is then the one given. \<^verbatim>\<open>byteOrder.Uint32\<close> panics on a counter of fewer
  than four bytes.
\<close>

definition AddInvoice ::
  "(64 word \<Rightarrow> int) \<Rightarrow> DB \<Rightarrow> InvoiceHTLC Invoice \<Rightarrow> 256 word
   \<Rightarrow> (error + 64 word \<times> InvoiceHTLC Invoice) \<times> DB" where
  "AddInvoice loff db newInvoice paymentHash =
     (case validateInvoice newInvoice of
        Inl e \<Rightarrow> (Inl e, db)
      | Inr _ \<Rightarrow>
         (let invoices = (case db of None \<Rightarrow> emptyInvoices | Some b \<Rightarrow> b);
              invoiceIndex = createIfNotExists (invoiceIndexBucket invoices);
              addIndex = createIfNotExists (addIndexBucket invoices)
          in if kvGet (be_bytes 32 (unat paymentHash)) (entries invoiceIndex) \<noteq> None
             then (Inl ErrDuplicateInvoice, db)
             else
               (case (case kvGet numInvoicesKey (entries invoiceIndex) of
                        None \<Rightarrow> Inr (0, bucketPut numInvoicesKey (be_bytes 4 0) invoiceIndex)
                      | Some invoiceCounter \<Rightarrow>
                          if length invoiceCounter < 4 then Inl ErrPanic
                          else Inr (of_nat (be_nat (take 4 invoiceCounter)), invoiceIndex)) of
                  Inl e \<Rightarrow> (Inl e, db)
                | Inr (invoiceNum, invoiceIndex') \<Rightarrow>
                    (case putInvoice loff (invoiceEntries invoices) invoiceIndex' addIndex
                            newInvoice invoiceNum paymentHash of
                       Inl e \<Rightarrow> (Inl e, db)
                     | Inr (newIndex, i', entries', invoiceIndex'', addIndex') \<Rightarrow>
                         (Inr (newIndex, i'),
                          Some (invoices\<lparr>invoiceEntries := entries',
                                  invoiceIndexBucket := Some invoiceIndex'',
                                  addIndexBucket := Some addIndex'\<rparr>))))))"

text \<open>\<^verbatim>\<open>LookupInvoice\<close>.\<close>

definition LookupInvoice ::
  "(64 word \<Rightarrow> int) \<Rightarrow> DB \<Rightarrow> 256 word \<Rightarrow> error + InvoiceHTLC Invoice" where
  "LookupInvoice loff db paymentHash =
     (case db of
        None \<Rightarrow> Inl ErrNoInvoicesCreated
      | Some invoices \<Rightarrow>
         (case invoiceIndexBucket invoices of
            None \<Rightarrow> Inl ErrNoInvoicesCreated
          | Some invoiceIndex \<Rightarrow>
             (case kvGet (be_bytes 32 (unat paymentHash)) (entries invoiceIndex) of
                None \<Rightarrow> Inl ErrInvoiceNotFound
              | Some invoiceNum \<Rightarrow> fetchInvoice loff invoiceNum (invoiceEntries invoices))))"

text \<open>
  The loop shared by \<^verbatim>\<open>InvoicesAddedSince\<close> and \<^verbatim>\<open>InvoicesSettledSince\<close>, over the
  entries from the cursor on: it runs while there is an entry and its key compares above
  the start index, and stops at the first invoice that cannot be fetched.
\<close>

fun sinceLoop ::
  "(64 word \<Rightarrow> int) \<Rightarrow> byte list \<Rightarrow> kvlist \<Rightarrow> kvlist \<Rightarrow> error + InvoiceHTLC Invoice list" where
  "sinceLoop loff startIndex invoices [] = Inr []"
| "sinceLoop loff startIndex invoices ((seqNo, invoiceKey) # rest) =
     (if \<not> bytesLess startIndex seqNo then Inr []
      else bindE (fetchInvoice loff invoiceKey invoices) (\<lambda>invoice.
           bindE (sinceLoop loff startIndex invoices rest) (\<lambda>more.
             Inr (invoice # more))))"

text \<open>The body of the read transaction: the cursor seeks to the start index, and the
  first \<^verbatim>\<open>Next\<close> steps over the entry it stands on.\<close>

definition sinceView ::
  "(64 word \<Rightarrow> int) \<Rightarrow> DB \<Rightarrow> (InvoicesBucket \<Rightarrow> Bucket option) \<Rightarrow> 64 word
   \<Rightarrow> error + InvoiceHTLC Invoice list" where
  "sinceView loff db indexOf sinceIndex =
     (case db of
        None \<Rightarrow> Inl ErrNoInvoicesCreated
      | Some invoices \<Rightarrow>
         (case indexOf invoices of
            None \<Rightarrow> Inl ErrNoInvoicesCreated
          | Some index \<Rightarrow>
             (let startIndex = be_bytes 8 (unat sinceIndex);
                  pos = cursorSeek startIndex (entries index)
              in sinceLoop loff startIndex (invoiceEntries invoices)
                   (drop (Suc pos) (entries index)))))"

text \<open>\<^verbatim>\<open>InvoicesAddedSince\<close>: \<^verbatim>\<open>ErrNoInvoicesCreated\<close> is turned into the empty
  result.\<close>

definition InvoicesAddedSince ::
  "(64 word \<Rightarrow> int) \<Rightarrow> DB \<Rightarrow> 64 word \<Rightarrow> error + InvoiceHTLC Invoice list" where
  "InvoicesAddedSince loff db sinceAddIndex =
     (if sinceAddIndex = 0 then Inr []
      else (case sinceView loff db addIndexBucket sinceAddIndex of
              Inl e \<Rightarrow> if e = ErrNoInvoicesCreated then Inr [] else Inl e
            | Inr newInvoices \<Rightarrow> Inr newInvoices))"

text \<open>\<^verbatim>\<open>InvoicesSettledSince\<close>: every error of the transaction is returned.\<close>

definition InvoicesSettledSince ::
  "(64 word \<Rightarrow> int) \<Rightarrow> DB \<Rightarrow> 64 word \<Rightarrow> error + InvoiceHTLC Invoice list" where
  "InvoicesSettledSince loff db sinceSettleIndex =
     (if sinceSettleIndex = 0 then Inr []
      else (case sinceView loff db settleIndexBucket sinceSettleIndex of
              Inl e \<Rightarrow> Inl e
            | Inr settledInvoices \<Rightarrow> Inr settledInvoices))"

subsection \<open>UpdateInvoice\<close>

text \<open>
  The invoice that \<^verbatim>\<open>fetchInvoice\<close> returns holds, in its \<^verbatim>\<open>Htlcs\<close> map, pointers
  to the \<^verbatim>\<open>InvoiceHTLC\<close> records that \<^verbatim>\<open>deserializeHtlcs\<close> allocated, one record for
  each entry. The records live in a store from addresses to records; the record of the
  entry at position \<open>n\<close> is at address \<open>n\<close>. The callback is Go code that is handed the
  copy of the invoice: it returns an update descriptor or an error, and it can write to any
  record it can reach, so it takes the store and returns it as it has left it.
\<close>

type_synonym addr = nat
type_synonym heap = "addr \<Rightarrow> InvoiceHTLC"
type_synonym InvoiceUpdateCallback =
  "addr Invoice \<Rightarrow> heap \<Rightarrow> (error + InvoiceUpdateDesc) \<times> heap"

definition zeroHtlc :: InvoiceHTLC where
  "zeroHtlc = \<lparr> Amt = 0, AcceptHeight = 0, AcceptTime = zeroTime, ResolveTime = zeroTime,
     Expiry_htlc = 0, State_htlc = 0 \<rparr>"

definition allocHtlcs :: "(CircuitKey \<times> InvoiceHTLC) list \<Rightarrow> (CircuitKey \<times> addr) list \<times> heap" where
  "allocHtlcs htlcs =
     (zip (map fst htlcs) [0..<length htlcs],
      (\<lambda>a. if a < length htlcs then snd (htlcs ! a) else zeroHtlc))"

definition derefHtlcs :: "heap \<Rightarrow> (CircuitKey \<times> addr) list \<Rightarrow> (CircuitKey \<times> InvoiceHTLC) list" where
  "derefHtlcs h ptrs = map (\<lambda>(key, a). (key, h a)) ptrs"

text \<open>The invoice struct with another \<^verbatim>\<open>Htlcs\<close> map: the same struct seen with
  the pointers of the map, or with the records they point to.\<close>

definition withHtlcs :: "'a Invoice \<Rightarrow> (CircuitKey \<times> 'b) list \<Rightarrow> 'b Invoice" where
  "withHtlcs i htlcs =
     \<lparr> Memo = Memo i, Receipt = Receipt i, PaymentRequest = PaymentRequest i,
       FinalCltvDelta = FinalCltvDelta i, Expiry = Expiry i,
       CreationDate = CreationDate i, SettleDate = SettleDate i, Terms = Terms i,
       AddIndex = AddIndex i, SettleIndex = SettleIndex i, AmtPaid = AmtPaid i,
       Htlcs = htlcs \<rparr>"

text \<open>\<^verbatim>\<open>copySlice\<close>: a new slice with the same bytes.\<close>

definition copySlice :: "byte list \<Rightarrow> byte list" where
  "copySlice src = src"

text \<open>
  \<^verbatim>\<open>copyInvoice\<close>. The composite literal names every field but \<^verbatim>\<open>Expiry\<close>, which
  is therefore zero in the copy. The loop stores in the new map, under every key, the value
  of the source map, which is the pointer.
\<close>

definition copyInvoice :: "'h Invoice \<Rightarrow> 'h Invoice" where
  "copyInvoice src =
     \<lparr> Memo = copySlice (Memo src),
       Receipt = copySlice (Receipt src),
       PaymentRequest = copySlice (PaymentRequest src),
       FinalCltvDelta = FinalCltvDelta src,
       Expiry = 0,
       CreationDate = CreationDate src,
       SettleDate = SettleDate src,
       Terms = Terms src,
       AddIndex = AddIndex src,
       SettleIndex = SettleIndex src,
       AmtPaid = AmtPaid src,
       Htlcs = map (\<lambda>(k, v). (k, v)) (Htlcs src) \<rparr>"

text \<open>
  The loop of \<^verbatim>\<open>updateInvoice\<close> over the descriptor's htlcs, in the order in which
  the \<^verbatim>\<open>range\<close> visits them.
\<close>

fun applyHtlcUpdates ::
  "ContractState \<Rightarrow> Time \<Rightarrow> (CircuitKey \<times> HtlcAcceptDesc option) list \<Rightarrow> InvoiceHTLC Invoice
   \<Rightarrow> error + InvoiceHTLC Invoice" where
  "applyHtlcUpdates preUpdateState now [] invoice = Inr invoice"
| "applyHtlcUpdates preUpdateState now ((key, htlcUpdate) # rest) invoice =
     (case htlcUpdate of
        None \<Rightarrow>
          (case map_of (Htlcs invoice) key of
             None \<Rightarrow> Inl ErrUnknownHtlc
           | Some htlc \<Rightarrow>
               if State_htlc htlc \<noteq> HtlcStateAccepted then Inl ErrCancelNotAccepted
               else applyHtlcUpdates preUpdateState now rest
                      (invoice\<lparr>Htlcs := AList.update key
                                 (htlc\<lparr>State_htlc := HtlcStateCanceled, ResolveTime := now\<rparr>)
                                 (Htlcs invoice),
                               AmtPaid := AmtPaid invoice - Amt htlc\<rparr>))
      | Some d \<Rightarrow>
          (case map_of (Htlcs invoice) key of
             Some htlc \<Rightarrow> Inl ErrHtlcAlreadyExists
           | None \<Rightarrow>
               (let htlc = \<lparr> Amt = Amt_desc d, AcceptHeight = AcceptHeight_desc d,
                             AcceptTime = now,
                             ResolveTime = (if preUpdateState = ContractSettled then now
                                            else zeroTime),
                             Expiry_htlc = Expiry_desc d,
                             State_htlc = (if preUpdateState = ContractSettled
                                           then HtlcStateSettled else HtlcStateAccepted) \<rparr>
                in applyHtlcUpdates preUpdateState now rest
                     (invoice\<lparr>Htlcs := AList.update key htlc (Htlcs invoice),
                              AmtPaid := AmtPaid invoice + Amt htlc\<rparr>))))"

text \<open>The loop that settles every accepted htlc.\<close>

definition settleAccepted :: "Time \<Rightarrow> InvoiceHTLC \<Rightarrow> InvoiceHTLC" where
  "settleAccepted now htlc =
     (if State_htlc htlc \<noteq> HtlcStateAccepted then htlc
      else htlc\<lparr>State_htlc := HtlcStateSettled, ResolveTime := now\<rparr>)"

text \<open>\<^verbatim>\<open>setSettleFields\<close>.\<close>

definition setSettleFields ::
  "Bucket \<Rightarrow> byte list \<Rightarrow> InvoiceHTLC Invoice \<Rightarrow> Time \<Rightarrow> InvoiceHTLC Invoice \<times> Bucket" where
  "setSettleFields settleIndex invoiceNum invoice now =
     (let (nextSettleSeqNo, settleIndex1) = NextSequence settleIndex;
          settleIndex2 = bucketPut (be_bytes 8 (unat nextSettleSeqNo)) invoiceNum settleIndex1
      in (invoice\<lparr>Terms := (Terms invoice)\<lparr>State := ContractSettled\<rparr>,
                   SettleDate := now, SettleIndex := nextSettleSeqNo\<rparr>,
          settleIndex2))"

text \<open>
  \<^verbatim>\<open>updateInvoice\<close>. \<open>hashOf\<close> is \<^verbatim>\<open>Preimage.Hash\<close> and \<open>now\<close> the value of
  \<^verbatim>\<open>d.now()\<close>. An error comes with the invoice pointer that the source returns beside it
  (the fetched invoice when the callback fails, \<^verbatim>\<open>nil\<close> otherwise); success comes with
  the updated invoice and the two buckets as written.
\<close>

definition updateInvoice ::
  "(64 word \<Rightarrow> int) \<Rightarrow> (256 word \<Rightarrow> 256 word) \<Rightarrow> Time \<Rightarrow> 256 word \<Rightarrow> kvlist \<Rightarrow> Bucket
   \<Rightarrow> byte list \<Rightarrow> InvoiceUpdateCallback
   \<Rightarrow> (error \<times> InvoiceHTLC Invoice option) + (InvoiceHTLC Invoice \<times> kvlist \<times> Bucket)" where
  "updateInvoice loff hashOf now hash invoices settleIndex invoiceNum callback =
     (case fetchInvoice loff invoiceNum invoices of
        Inl e \<Rightarrow> Inl (e, None)
      | Inr invoice \<Rightarrow>
         (let preUpdateState = State (Terms invoice);
              (ptrs, h0) = allocHtlcs (Htlcs invoice);
              copy = copyInvoice (withHtlcs invoice ptrs);
              (res, h1) = callback copy h0;
              invoice1 = withHtlcs invoice (derefHtlcs h1 ptrs)
          in case res of
               Inl e \<Rightarrow> Inl (e, Some invoice1)
             | Inr update \<Rightarrow>
                (case applyHtlcUpdates preUpdateState now (Htlcs_upd update)
                        (invoice1\<lparr>Terms := (Terms invoice1)\<lparr>State := State_upd update\<rparr>\<rparr>) of
                   Inl e \<Rightarrow> Inl (e, None)
                 | Inr invoice2 \<Rightarrow>
                    (case (if preUpdateState \<noteq> State (Terms invoice2)
                              \<and> State (Terms invoice2) = ContractSettled
                           then (if hashOf (Preimage update) \<noteq> hash then Inl ErrPreimageMismatch
                                 else Inr (setSettleFields settleIndex invoiceNum
                                        (invoice2\<lparr>Terms := (Terms invoice2)\<lparr>PaymentPreimage := Preimage update\<rparr>,
                                                  Htlcs := map (\<lambda>(k, htlc). (k, settleAccepted now htlc))
                                                             (Htlcs invoice2)\<rparr>)
                                        now))
                           else Inr (invoice2, settleIndex)) of
                       Inl e \<Rightarrow> Inl (e, None)
                     | Inr (invoice3, settleIndex') \<Rightarrow>
                        (case serializeInvoice loff invoice3 of
                           Inl e \<Rightarrow> Inl (e, None)
                         | Inr buf \<Rightarrow>
                             Inr (invoice3, kvPut invoiceNum buf invoices, settleIndex'))))))"

text \<open>
  \<^verbatim>\<open>UpdateInvoice\<close>: the invoice pointer and the error that the source returns, and
  the database after the transaction, which is the one given when the transaction fails.
\<close>

definition UpdateInvoice ::
  "(64 word \<Rightarrow> int) \<Rightarrow> (256 word \<Rightarrow> 256 word) \<Rightarrow> Time \<Rightarrow> DB \<Rightarrow> 256 word \<Rightarrow> InvoiceUpdateCallback
   \<Rightarrow> (InvoiceHTLC Invoice option \<times> error option) \<times> DB" where
  "UpdateInvoice loff hashOf now db paymentHash callback =
     (let invoices = (case db of None \<Rightarrow> emptyInvoices | Some b \<Rightarrow> b);
          invoiceIndex = createIfNotExists (invoiceIndexBucket invoices);
          settleIndex = createIfNotExists (settleIndexBucket invoices)
      in case kvGet (be_bytes 32 (unat paymentHash)) (entries invoiceIndex) of
           None \<Rightarrow> ((None, Some ErrInvoiceNotFound), db)
         | Some invoiceNum \<Rightarrow>
            (case updateInvoice loff hashOf now paymentHash (invoiceEntries invoices)
                    settleIndex invoiceNum callback of
               Inl (e, i) \<Rightarrow> ((i, Some e), db)
             | Inr (updatedInvoice, entries', settleIndex') \<Rightarrow>
                 ((Some updatedInvoice, None),
                  Some (invoices\<lparr>invoiceEntries := entries',
                          invoiceIndexBucket := Some invoiceIndex,
                          settleIndexBucket := Some settleIndex'\<rparr>))))"

section \<open>Notions used to state the claims on invoices\<close>

text \<open>The top-level bucket of a database, as a write transaction sees it after
  \<^verbatim>\<open>CreateBucketIfNotExists\<close>.\<close>

definition invoicesOf :: "DB \<Rightarrow> InvoicesBucket" where
  "invoicesOf db = (case db of None \<Rightarrow> emptyInvoices | Some b \<Rightarrow> b)"

text \<open>The payment hash is a key of the payment-hash index.\<close>

definition hashStored :: "DB \<Rightarrow> 256 word \<Rightarrow> bool" where
  "hashStored db paymentHash =
     (kvGet (be_bytes 32 (unat paymentHash))
        (entries (createIfNotExists (invoiceIndexBucket (invoicesOf db)))) \<noteq> None)"

text \<open>The invoice counter, when it is stored, has the four bytes that
  \<^verbatim>\<open>byteOrder.Uint32\<close> reads.\<close>

definition counterOk :: "DB \<Rightarrow> bool" where
  "counterOk db =
     (case kvGet numInvoicesKey (entries (createIfNotExists (invoiceIndexBucket (invoicesOf db)))) of
        None \<Rightarrow> True
      | Some c \<Rightarrow> 4 \<le> length c)"

text \<open>The sequence of the add index, and the add index that the next invoice gets.\<close>

definition addSequence :: "DB \<Rightarrow> 64 word" where
  "addSequence db = sequence (createIfNotExists (addIndexBucket (invoicesOf db)))"

definition nextAddIndex :: "DB \<Rightarrow> 64 word" where
  "nextAddIndex db = addSequence db + 1"

text \<open>\<^verbatim>\<open>MarshalBinary\<close> accepts the time: its zone offset is a whole number of
  minutes that fits 16 bits and is not \<open>-1\<close>.\<close>

definition marshals :: "(64 word \<Rightarrow> int) \<Rightarrow> Time \<Rightarrow> bool" where
  "marshals loff t = (\<not> isl (zoneMinutes loff t))"

text \<open>The invoice of the examples: memo, receipt and payment request of exactly the
  largest sizes, created at the Unix time of 5 nanoseconds, never settled. The local zone
  of the examples is at offset 0.\<close>

definition loff0 :: "64 word \<Rightarrow> int" where
  "loff0 s = 0"

definition invoice0 :: "InvoiceHTLC Invoice" where
  "invoice0 =
     \<lparr> Memo = replicate 1024 0, Receipt = replicate 1024 0,
       PaymentRequest = replicate 4096 0, FinalCltvDelta = 40, Expiry = 3600,
       CreationDate = Unix0 5, SettleDate = zeroTime,
       Terms = \<lparr> PaymentPreimage = 0, Value = 1000000, State = ContractOpen \<rparr>,
       AddIndex = 0, SettleIndex = 0, AmtPaid = 0, Htlcs = [] \<rparr>"

section \<open>What serialisation keeps of an invoice\<close>

text \<open>
  A date comes back from \<^verbatim>\<open>MarshalBinary\<close> and \<^verbatim>\<open>UnmarshalBinary\<close> without its
  monotonic clock reading, and in the local zone when its fixed zone has the offset of the
  local zone.
\<close>

definition canonLoc :: "(64 word \<Rightarrow> int) \<Rightarrow> Time \<Rightarrow> Location" where
  "canonLoc loff t =
     (case t_loc t of
        FixedZone z \<Rightarrow> if z = loff (t_sec t) then Local else FixedZone z
      | l \<Rightarrow> l)"

definition normDate :: "(64 word \<Rightarrow> int) \<Rightarrow> Time \<Rightarrow> Time" where
  "normDate loff t = t\<lparr>t_mono := None, t_loc := canonLoc loff t\<rparr>"

text \<open>
  A time of an htlc comes back as \<^verbatim>\<open>time.Unix(0, t.UnixNano())\<close>. It is kept as it is
  when it is in the local zone, has no monotonic reading and its nanoseconds since 1970
  fit an \<^verbatim>\<open>int64\<close>.
\<close>

definition nanoTime :: "Time \<Rightarrow> bool" where
  "nanoTime t \<longleftrightarrow>
     t_loc t = Local \<and> t_mono t = None \<and> uint (t_nsec t) < 1000000000
     \<and> - (2 ^ 63) \<le> (sint (t_sec t) - unixToInternal) * 1000000000 + uint (t_nsec t)
     \<and> (sint (t_sec t) - unixToInternal) * 1000000000 + uint (t_nsec t) < 2 ^ 63"

definition normHtlc :: "InvoiceHTLC \<Rightarrow> InvoiceHTLC" where
  "normHtlc htlc = htlc\<lparr>AcceptTime := Unix0 (UnixNano (AcceptTime htlc)),
                         ResolveTime := Unix0 (UnixNano (ResolveTime htlc))\<rparr>"

text \<open>The map that \<^verbatim>\<open>deserializeHtlcs\<close> builds from the htlcs read, entry by entry.\<close>

fun insertAll :: "(CircuitKey \<times> InvoiceHTLC) list \<Rightarrow> (CircuitKey \<times> InvoiceHTLC) list
    \<Rightarrow> (CircuitKey \<times> InvoiceHTLC) list" where
  "insertAll acc [] = acc"
| "insertAll acc ((key, htlc) # rest) = insertAll (AList.update key (normHtlc htlc) acc) rest"

text \<open>The invoice that comes back from the database.\<close>

definition normInvoice :: "(64 word \<Rightarrow> int) \<Rightarrow> InvoiceHTLC Invoice \<Rightarrow> InvoiceHTLC Invoice" where
  "normInvoice loff i =
     i\<lparr>CreationDate := normDate loff (CreationDate i),
       SettleDate := normDate loff (SettleDate i),
       Htlcs := map (\<lambda>(k, h). (k, normHtlc h)) (Htlcs i)\<rparr>"

text \<open>A date that \<^verbatim>\<open>MarshalBinary\<close> accepts and \<^verbatim>\<open>UnmarshalBinary\<close> gives back
  unchanged.\<close>

definition storableDate :: "(64 word \<Rightarrow> int) \<Rightarrow> Time \<Rightarrow> bool" where
  "storableDate loff t \<longleftrightarrow>
     marshals loff t \<and> t_mono t = None
     \<and> (case t_loc t of FixedZone z \<Rightarrow> z \<noteq> loff (t_sec t) | _ \<Rightarrow> True)"

text \<open>Both times of the htlc are kept by the tlv stream.\<close>

definition storableHtlc :: "InvoiceHTLC \<Rightarrow> bool" where
  "storableHtlc htlc \<longleftrightarrow> nanoTime (AcceptTime htlc) \<and> nanoTime (ResolveTime htlc)"

text \<open>Htlcs of the examples: one settled, with both times set, and one accepted, whose
  resolve time is the zero time of the source.\<close>

definition key1 :: CircuitKey where
  "key1 = \<lparr> ChanID = 1, HtlcID = 7 \<rparr>"

definition htlcSettled :: InvoiceHTLC where
  "htlcSettled = \<lparr> Amt = 1000000, AcceptHeight = 50, AcceptTime = Unix0 1000,
     ResolveTime = Unix0 2000, Expiry_htlc = 100, State_htlc = HtlcStateSettled \<rparr>"

definition htlcAccepted :: InvoiceHTLC where
  "htlcAccepted = \<lparr> Amt = 1000000, AcceptHeight = 50, AcceptTime = Unix0 1000,
     ResolveTime = zeroTime, Expiry_htlc = 100, State_htlc = HtlcStateAccepted \<rparr>"

section \<open>Notions used to state the claims on UpdateInvoice\<close>

text \<open>
  What the call of the callback inside \<^verbatim>\<open>updateInvoice\<close> leaves behind: the
  descriptor or error it returns, and the fetched invoice with its htlc records as they
  are after the call.
\<close>

definition callbackResult ::
  "InvoiceUpdateCallback \<Rightarrow> InvoiceHTLC Invoice \<Rightarrow> (error + InvoiceUpdateDesc) \<times> InvoiceHTLC Invoice" where
  "callbackResult callback invoice =
     (let (ptrs, h0) = allocHtlcs (Htlcs invoice);
          (res, h1) = callback (copyInvoice (withHtlcs invoice ptrs)) h0
      in (res, withHtlcs invoice (derefHtlcs h1 ptrs)))"

text \<open>A callback that writes to no htlc record.\<close>

definition readOnly :: "InvoiceUpdateCallback \<Rightarrow> bool" where
  "readOnly callback \<longleftrightarrow> (\<forall>c h. snd (callback c h) = h)"

text \<open>The htlc that the loop of \<^verbatim>\<open>updateInvoice\<close> creates for an accept
  descriptor.\<close>

definition newHtlc :: "ContractState \<Rightarrow> Time \<Rightarrow> HtlcAcceptDesc \<Rightarrow> InvoiceHTLC" where
  "newHtlc preUpdateState now d =
     \<lparr> Amt = Amt_desc d, AcceptHeight = AcceptHeight_desc d, AcceptTime = now,
       ResolveTime = (if preUpdateState = ContractSettled then now else zeroTime),
       Expiry_htlc = Expiry_desc d,
       State_htlc = (if preUpdateState = ContractSettled then HtlcStateSettled
                     else HtlcStateAccepted) \<rparr>"

text \<open>The invoice as the block of \<^verbatim>\<open>updateInvoice\<close> leaves it that runs when the update
  moves the invoice to the settled state: the preimage is set, every accepted htlc is
  settled at the time of the update, and \<^verbatim>\<open>setSettleFields\<close> sets the state, the
  settle date and the settle index.\<close>

definition settledInvoice ::
  "Time \<Rightarrow> 256 word \<Rightarrow> 64 word \<Rightarrow> InvoiceHTLC Invoice \<Rightarrow> InvoiceHTLC Invoice" where
  "settledInvoice now preimage settleIdx i =
     i\<lparr>Terms := (Terms i)\<lparr>PaymentPreimage := preimage, State := ContractSettled\<rparr>,
       Htlcs := map (\<lambda>(k, htlc). (k, settleAccepted now htlc)) (Htlcs i),
       SettleDate := now, SettleIndex := settleIdx\<rparr>"

text \<open>The settle index that the next settled invoice gets.\<close>

definition nextSettleIndex :: "DB \<Rightarrow> 64 word" where
  "nextSettleIndex db = sequence (createIfNotExists (settleIndexBucket (invoicesOf db))) + 1"

text \<open>The update moves the invoice to the settled state.\<close>

definition settles :: "InvoiceHTLC Invoice \<Rightarrow> InvoiceUpdateDesc \<Rightarrow> bool" where
  "settles invoice update \<longleftrightarrow>
     State (Terms invoice) \<noteq> ContractSettled \<and> State_upd update = ContractSettled"

text \<open>The amounts that a descriptor adds, and the amounts of the htlcs that it cancels,
  with the wrapping sum of \<^verbatim>\<open>lnwire.MilliAtom\<close>.\<close>

definition amtAdded :: "(CircuitKey \<times> HtlcAcceptDesc option) list \<Rightarrow> 64 word" where
  "amtAdded us = sum_list (map (\<lambda>(k, x). case x of None \<Rightarrow> 0 | Some d \<Rightarrow> Amt_desc d) us)"

definition amtCanceled ::
  "(CircuitKey \<times> InvoiceHTLC) list \<Rightarrow> (CircuitKey \<times> HtlcAcceptDesc option) list \<Rightarrow> 64 word" where
  "amtCanceled htlcs us =
     sum_list (map (\<lambda>(k, x). case x of
                                 None \<Rightarrow> (case map_of htlcs k of None \<Rightarrow> 0 | Some h \<Rightarrow> Amt h)
                               | Some d \<Rightarrow> 0) us)"

section \<open>Examples of updates\<close>

text \<open>
  A payment hash and its preimage under the function that stands for
  \<^verbatim>\<open>Preimage.Hash\<close> in the examples; a callback that returns a given descriptor and
  writes nothing; descriptors that accept one htlc, that accept it and settle the invoice,
  that cancel it, and that settle with a preimage of another hash.
\<close>

definition exampleHash :: "256 word \<Rightarrow> 256 word" where
  "exampleHash p = p + 1"

definition preimage0 :: "256 word" where
  "preimage0 = 76"

definition paymentHash0 :: "256 word" where
  "paymentHash0 = 77"

definition cbReturn :: "InvoiceUpdateDesc \<Rightarrow> InvoiceUpdateCallback" where
  "cbReturn update c h = (Inr update, h)"

definition acceptDesc :: HtlcAcceptDesc where
  "acceptDesc = \<lparr> AcceptHeight_desc = 50, Amt_desc = 1000000, Expiry_desc = 100 \<rparr>"

definition updAccept :: InvoiceUpdateDesc where
  "updAccept = \<lparr> State_upd = ContractAccepted, Htlcs_upd = [(key1, Some acceptDesc)],
                 Preimage = 0 \<rparr>"

definition updSettle :: InvoiceUpdateDesc where
  "updSettle = \<lparr> State_upd = ContractSettled, Htlcs_upd = [(key1, Some acceptDesc)],
                 Preimage = preimage0 \<rparr>"

definition updCancel :: InvoiceUpdateDesc where
  "updCancel = \<lparr> State_upd = ContractAccepted, Htlcs_upd = [(key1, None)], Preimage = 0 \<rparr>"

definition updWrongPreimage :: InvoiceUpdateDesc where
  "updWrongPreimage = \<lparr> State_upd = ContractSettled, Htlcs_upd = [], Preimage = 0 \<rparr>"

text \<open>The database after \<^verbatim>\<open>AddInvoice\<close> of the example invoice on the empty database,
  then after an update that accepts one htlc, then after one that cancels it.\<close>

definition db1 :: DB where
  "db1 = snd (AddInvoice loff0 None invoice0 paymentHash0)"

definition db2 :: DB where
  "db2 = snd (UpdateInvoice loff0 exampleHash (Unix0 1000) db1 paymentHash0 (cbReturn updAccept))"

definition db3 :: DB where
  "db3 = snd (UpdateInvoice loff0 exampleHash (Unix0 2000) db2 paymentHash0 (cbReturn updCancel))"

text \<open>The invoices that these databases hold: the time of an htlc comes back from the
  database as \<^verbatim>\<open>time.Unix(0, t.UnixNano())\<close>.\<close>

definition invoiceAccepted :: "InvoiceHTLC Invoice" where
  "invoiceAccepted =
     invoice0\<lparr>AddIndex := 1,
              Terms := \<lparr> PaymentPreimage = 0, Value = 1000000, State = ContractAccepted \<rparr>,
              AmtPaid := 1000000,
              Htlcs := [(key1, htlcAccepted\<lparr>ResolveTime := Unix0 (UnixNano zeroTime)\<rparr>)]\<rparr>"

definition invoiceCanceledHtlc :: "InvoiceHTLC Invoice" where
  "invoiceCanceledHtlc =
     invoice0\<lparr>AddIndex := 1,
              Terms := \<lparr> PaymentPreimage = 0, Value = 1000000, State = ContractAccepted \<rparr>,
              AmtPaid := 0,
              Htlcs := [(key1, htlcAccepted\<lparr>ResolveTime := Unix0 2000,
                                            State_htlc := HtlcStateCanceled\<rparr>)]\<rparr>"

definition invoiceSettled :: "InvoiceHTLC Invoice" where
  "invoiceSettled =
     invoice0\<lparr>AddIndex := 1,
              Terms := \<lparr> PaymentPreimage = preimage0, Value = 1000000, State = ContractSettled \<rparr>,
              AmtPaid := 1000000, SettleDate := Unix0 2000, SettleIndex := 1,
              Htlcs := [(key1, htlcSettled\<lparr>AcceptTime := Unix0 2000\<rparr>)]\<rparr>"

text \<open>A descriptor that leaves an accepted invoice as it is, and a callback that returns
  it after writing the amount 5 to the first htlc record that it reaches through the
  invoice it was given.\<close>

definition updNothing :: InvoiceUpdateDesc where
  "updNothing = \<lparr> State_upd = ContractAccepted, Htlcs_upd = [], Preimage = 0 \<rparr>"

definition cbMut :: InvoiceUpdateCallback where
  "cbMut c h =
     (Inr updNothing,
      (case Htlcs c of [] \<Rightarrow> h | (k, a) # rest \<Rightarrow> h(a := (h a)\<lparr>Amt := 5\<rparr>)))"


text \<open>The database after an update of the first one that accepts the htlc and settles the
  invoice, a second circuit key, and a descriptor that accepts an htlc under it on the
  settled invoice.\<close>

definition dbSettled :: DB where
  "dbSettled = snd (UpdateInvoice loff0 exampleHash (Unix0 2000) db1 paymentHash0 (cbReturn updSettle))"

definition key2 :: CircuitKey where
  "key2 = \<lparr> ChanID = 1, HtlcID = 8 \<rparr>"

definition updLate :: InvoiceUpdateDesc where
  "updLate = \<lparr> State_upd = ContractSettled, Htlcs_upd = [(key2, Some acceptDesc)],
               Preimage = preimage0 \<rparr>"

definition invoiceLate :: "InvoiceHTLC Invoice" where
  "invoiceLate =
     invoiceSettled\<lparr>AmtPaid := 2000000,
        Htlcs := [(key1, htlcSettled\<lparr>AcceptTime := Unix0 2000\<rparr>),
                  (key2, htlcSettled\<lparr>AcceptTime := Unix0 3000, ResolveTime := Unix0 3000\<rparr>)]\<rparr>"

text \<open>The invoice of the second database with the amount 5 in its htlc.\<close>

definition invoiceMutated :: "InvoiceHTLC Invoice" where
  "invoiceMutated =
     invoiceAccepted\<lparr>Htlcs :=
        [(key1, htlcAccepted\<lparr>ResolveTime := Unix0 (UnixNano zeroTime), Amt := 5\<rparr>)]\<rparr>"

section \<open>Notions used to state the claim on the paid amount\<close>

text \<open>The sum of the amounts of the settled htlcs of an invoice, and the sum of the amounts
  of its htlcs that are not canceled, both with the wrapping sum of
  \<^verbatim>\<open>lnwire.MilliAtom\<close>.\<close>

definition amtSettled :: "InvoiceHTLC Invoice \<Rightarrow> 64 word" where
  "amtSettled i =
     sum_list (map (\<lambda>(k, h). if State_htlc h = HtlcStateSettled then Amt h else 0) (Htlcs i))"

definition countedAmt :: "InvoiceHTLC \<Rightarrow> 64 word" where
  "countedAmt h = (if State_htlc h \<noteq> HtlcStateCanceled then Amt h else 0)"

definition amtNotCanceled :: "InvoiceHTLC Invoice \<Rightarrow> 64 word" where
  "amtNotCanceled i = sum_list (map (\<lambda>(k, h). countedAmt h) (Htlcs i))"

text \<open>A call of \<^verbatim>\<open>AddInvoice\<close> or of \<^verbatim>\<open>UpdateInvoice\<close>, the latter with the
  callback and the time that \<^verbatim>\<open>d.now()\<close> gives during the call; the database after a
  call, and after a sequence of calls on the empty database.\<close>

datatype InvoiceOp =
    OpAdd "InvoiceHTLC Invoice" "256 word"
  | OpUpdate "256 word" InvoiceUpdateCallback Time

fun applyOp :: "(64 word \<Rightarrow> int) \<Rightarrow> (256 word \<Rightarrow> 256 word) \<Rightarrow> DB \<Rightarrow> InvoiceOp \<Rightarrow> DB" where
  "applyOp loff hashOf db (OpAdd i h) = snd (AddInvoice loff db i h)"
| "applyOp loff hashOf db (OpUpdate h callback now) = snd (UpdateInvoice loff hashOf now db h callback)"

definition runOps :: "(64 word \<Rightarrow> int) \<Rightarrow> (256 word \<Rightarrow> 256 word) \<Rightarrow> InvoiceOp list \<Rightarrow> DB" where
  "runOps loff hashOf ops = foldl (applyOp loff hashOf) None ops"

text \<open>The calls of the amended claim: an invoice is added with a paid amount that is the
  sum over its htlcs that are not canceled (a new invoice has no htlc and nothing paid),
  under distinct circuit keys as in any Go map; the callback of an update writes to no htlc
  record.\<close>

fun admissible :: "InvoiceOp \<Rightarrow> bool" where
  "admissible (OpAdd i h) \<longleftrightarrow> AmtPaid i = amtNotCanceled i \<and> distinct (map fst (Htlcs i))"
| "admissible (OpUpdate h callback now) \<longleftrightarrow> readOnly callback"

text \<open>Every stored entry is the serialisation of an invoice within the size bounds, with
  distinct circuit keys, whose paid amount is the sum over its htlcs that are not
  canceled.\<close>

definition paidStore :: "(64 word \<Rightarrow> int) \<Rightarrow> DB \<Rightarrow> bool" where
  "paidStore loff db \<longleftrightarrow>
     (\<forall>(k, bytes) \<in> set (invoiceEntries (invoicesOf db)).
        \<exists>i. serializeInvoice loff i = Inr bytes \<and> validateInvoice i = Inr ()
           \<and> distinct (map fst (Htlcs i)) \<and> AmtPaid i = amtNotCanceled i)"


section \<open>contractcourt: the arbitrator log of the tests\<close>

text \<open>
  The states of \<^verbatim>\<open>ArbitratorState\<close> that the tests name, and
  \<^verbatim>\<open>mockArbitratorLog\<close> of the test file of the channel arbitrator, with the fields that decide
  its answers. The channel \<^verbatim>\<open>newStates\<close> is the list of the states sent on it, oldest
  first; \<^verbatim>\<open>failFetch\<close> is whether the error is set.
\<close>

datatype ArbitratorState =
    StateDefault
  | StateBroadcastCommit
  | StateCommitmentBroadcasted
  | StateContractClosed
  | StateWaitingFullResolution
  | StateFullyResolved

datatype arbError =
    ErrCommitState
  | ErrLogResolutions
  | ErrFetchResolutions
  | ErrMarkChannelClosed
  | ErrPublish
  | ErrAlreadyForceClosed

record mockArbitratorLog =
  state :: ArbitratorState
  newStates :: "ArbitratorState list"
  failLog :: bool
  failFetch :: bool
  failCommit :: bool
  failCommitState :: ArbitratorState

definition CurrentState :: "mockArbitratorLog \<Rightarrow> ArbitratorState" where
  "CurrentState b = state b"

definition CommitState :: "ArbitratorState \<Rightarrow> mockArbitratorLog \<Rightarrow> arbError + mockArbitratorLog" where
  "CommitState s b =
     (if failCommit b \<and> s = failCommitState b then Inl ErrCommitState
      else Inr (b\<lparr>state := s, newStates := newStates b @ [s]\<rparr>))"

definition LogContractResolutions :: "mockArbitratorLog \<Rightarrow> arbError + unit" where
  "LogContractResolutions b = (if failLog b then Inl ErrLogResolutions else Inr ())"

definition FetchContractResolutions :: "mockArbitratorLog \<Rightarrow> arbError + unit" where
  "FetchContractResolutions b = (if failFetch b then Inl ErrFetchResolutions else Inr ())"

section \<open>contractcourt: the channel arbitrator\<close>

text \<open>
  Modelled from the spec: the channel arbitrator, whose source file is not among the
  sources; its test file says what the tests expect of it.
  What follows is section 4.5 of the spec. The answers of the arbitrator's collaborators
  during the handling of one event are its configuration: the result of
  \<^verbatim>\<open>PublishTx\<close>, whether \<^verbatim>\<open>MarkChannelClosed\<close> succeeds, whether an outgoing htlc
  is within the broadcast delta of its expiry, whether the confirmed commitment has live
  htlcs, and whether contracts remain unresolved once the resolvers have been started.
\<close>

datatype PublishResult = PublishOk | PublishDoubleSpend | PublishFailed

record ArbitratorConfig =
  PublishTx :: PublishResult
  MarkChannelClosed :: bool
  htlcNearExpiry :: bool
  liveHtlcs :: bool
  unresolvedContracts :: bool

text \<open>
  Modelled from the spec: what the arbitrator is subscribed to (the four chain events, the
  block epochs, the force-close requests), a resolver that has swept its htlc and reports
  it, the end of the resolvers, and a restart. The trigger of a transition is the event
  that started it; a restart of a channel that is pending close has the trigger of its
  close type.
\<close>

datatype Trigger =
    ForceCloseRequest
  | BlockEpoch
  | LocalUnilateralClose
  | RemoteUnilateralClose
  | CooperativeClose
  | ContractBreach
  | ResolversFinished

datatype Event =
    ForceCloseReq
  | Epoch
  | LocalClose
  | RemoteClose
  | CoopClose
  | Breach
  | ResolverSwept
  | ResolversDone
  | Restart "Trigger option"
  | SetLog bool bool bool ArbitratorState

text \<open>
  Modelled from the spec: what can be observed of an arbitrator, in order: the externally
  visible actions of the persistence contract and the replies to a force-close request,
  each with the state of the arbitrator at the moment of the action (the tests read
  \<^verbatim>\<open>chanArb.state\<close> from inside \<^verbatim>\<open>PublishTx\<close>), and the calls of
  \<^verbatim>\<open>CommitState\<close> with their outcome.
\<close>

datatype Action =
    DoPublishTx
  | DoResolutionMsg
  | DoMarkChannelClosed
  | DoMarkChannelResolved
  | DoReply "arbError option"

datatype Obs =
    Did Action ArbitratorState
  | Committed ArbitratorState
  | CommitFailed ArbitratorState

record ChannelArbitrator =
  log :: mockArbitratorLog
  arbState :: ArbitratorState
  observed :: "Obs list"

text \<open>
  Modelled from the spec: one step of the state machine of section 4.5 in the state
  \<open>s\<close>: the actions that the step takes, then the next state, or an error. From Default a
  force-close request, or a block epoch with an htlc near its expiry, leads to
  BroadcastCommit, a local or remote close seen on chain to ContractClosed, a
  cooperative close to FullyResolved. In BroadcastCommit the commitment is published:
  with success or a double spend the next state is CommitmentBroadcasted, any other
  error is returned (the test of a breached channel under force close finds no further
  state committed). From CommitmentBroadcasted the confirmation of the own or the remote
  commitment leads to ContractClosed. In ContractClosed an error of fetching the
  resolutions keeps the state; without live htlcs the next state is FullyResolved, with
  live htlcs the resolvers are started, the resolution messages of the dust htlcs are
  sent and the next state is WaitingFullResolution, which is left for FullyResolved when
  no contract remains unresolved. In FullyResolved the channel is marked resolved. A
  breach in any state before FullyResolved leads to FullyResolved.
\<close>

definition stateStep ::
  "ArbitratorConfig \<Rightarrow> Trigger \<Rightarrow> mockArbitratorLog \<Rightarrow> ArbitratorState
   \<Rightarrow> Action list \<times> (arbError + ArbitratorState)" where
  "stateStep cfg trigger lg s =
     (case s of
        StateFullyResolved \<Rightarrow> ([DoMarkChannelResolved], Inr StateFullyResolved)
      | _ \<Rightarrow>
         if trigger = ContractBreach then ([], Inr StateFullyResolved)
         else
           (case s of
              StateDefault \<Rightarrow>
                (case trigger of
                   ForceCloseRequest \<Rightarrow> ([], Inr StateBroadcastCommit)
                 | BlockEpoch \<Rightarrow>
                     ([], Inr (if htlcNearExpiry cfg then StateBroadcastCommit else StateDefault))
                 | LocalUnilateralClose \<Rightarrow> ([], Inr StateContractClosed)
                 | RemoteUnilateralClose \<Rightarrow> ([], Inr StateContractClosed)
                 | CooperativeClose \<Rightarrow> ([], Inr StateFullyResolved)
                 | _ \<Rightarrow> ([], Inr StateDefault))
            | StateBroadcastCommit \<Rightarrow>
                (case PublishTx cfg of
                   PublishFailed \<Rightarrow> ([DoPublishTx], Inl ErrPublish)
                 | _ \<Rightarrow> ([DoPublishTx], Inr StateCommitmentBroadcasted))
            | StateCommitmentBroadcasted \<Rightarrow>
                (case trigger of
                   LocalUnilateralClose \<Rightarrow> ([], Inr StateContractClosed)
                 | RemoteUnilateralClose \<Rightarrow> ([], Inr StateContractClosed)
                 | _ \<Rightarrow> ([], Inr StateCommitmentBroadcasted))
            | StateContractClosed \<Rightarrow>
                (case FetchContractResolutions lg of
                   Inl e \<Rightarrow> ([], Inl e)
                 | Inr _ \<Rightarrow>
                     if liveHtlcs cfg then ([DoResolutionMsg], Inr StateWaitingFullResolution)
                     else ([], Inr StateFullyResolved))
            | StateWaitingFullResolution \<Rightarrow>
                ([], Inr (if unresolvedContracts cfg \<and> trigger \<noteq> ResolversFinished
                          then StateWaitingFullResolution else StateFullyResolved))
            | StateFullyResolved \<Rightarrow> ([DoMarkChannelResolved], Inr StateFullyResolved)))"

text \<open>The position of a state on the way from Default to FullyResolved.\<close>

fun rank :: "ArbitratorState \<Rightarrow> nat" where
  "rank StateDefault = 0"
| "rank StateBroadcastCommit = 1"
| "rank StateCommitmentBroadcasted = 2"
| "rank StateContractClosed = 3"
| "rank StateWaitingFullResolution = 4"
| "rank StateFullyResolved = 5"

text \<open>
  Modelled from the spec: the persistence contract. The steps are run from the current
  state on; a step that returns another state is followed by \<^verbatim>\<open>CommitState\<close> of that
  state, and only when it succeeds is that state the current one and its step run. A
  failed \<^verbatim>\<open>CommitState\<close>, an error of a step, and a step that returns its own state end
  the handling of the event.
\<close>

function advanceState :: "ArbitratorConfig \<Rightarrow> Trigger \<Rightarrow> ChannelArbitrator \<Rightarrow> ChannelArbitrator" where
  "advanceState cfg trigger arb =
     (case stateStep cfg trigger (log arb) (arbState arb) of
        (acts, res) \<Rightarrow>
          (let arb1 = arb\<lparr>observed := observed arb @ map (\<lambda>a. Did a (arbState arb)) acts\<rparr>
           in case res of
                Inl e \<Rightarrow> arb1
              | Inr nextState \<Rightarrow>
                  if nextState = arbState arb then arb1
                  else (case CommitState nextState (log arb1) of
                          Inl e \<Rightarrow> arb1\<lparr>observed := observed arb1 @ [CommitFailed nextState]\<rparr>
                        | Inr lg \<Rightarrow>
                            advanceState cfg trigger
                              (arb1\<lparr>log := lg, arbState := nextState,
                                    observed := observed arb1 @ [Committed nextState]\<rparr>))))"
  by pat_completeness auto
termination
  apply (relation "measure (\<lambda>(cfg, trigger, arb). 5 - rank (arbState arb))")
   apply simp
  apply auto
  subgoal for cfg trigger arb acts nextState lg
    by (auto simp: stateStep_def
        split: ArbitratorState.splits Trigger.splits PublishResult.splits sum.splits if_splits)
  done

text \<open>
  Modelled from the spec: the handling of one event. A force-close request in a state
  other than Default is answered with \<^verbatim>\<open>ErrAlreadyForceClosed\<close> without a transition;
  otherwise the caller gets the error of the publication or of the commit, if any. A close
  seen on chain is first made durable: the resolutions are logged (for a unilateral close) and the
  channel is marked closed; an error of either ends the handling, as the persistence
  test expects. The resolvers run while the state is WaitingFullResolution: a resolver
  that has swept its htlc sends a resolution message, as the test of a local force close
  with a pending htlc receives one before FullyResolved is committed. A restart reads the
  state from the log.
\<close>

definition afterClose :: "ArbitratorConfig \<Rightarrow> Trigger \<Rightarrow> ChannelArbitrator \<Rightarrow> ChannelArbitrator" where
  "afterClose cfg trigger arb =
     (let arb1 = arb\<lparr>observed := observed arb @ [Did DoMarkChannelClosed (arbState arb)]\<rparr>
      in if MarkChannelClosed cfg then advanceState cfg trigger arb1 else arb1)"

definition handleEvent :: "ArbitratorConfig \<Rightarrow> Event \<Rightarrow> ChannelArbitrator \<Rightarrow> ChannelArbitrator" where
  "handleEvent cfg ev arb =
     (case ev of
        ForceCloseReq \<Rightarrow>
          if arbState arb \<noteq> StateDefault
          then arb\<lparr>observed := observed arb @
                 [Did (DoReply (Some ErrAlreadyForceClosed)) (arbState arb)]\<rparr>
          else (let arb1 = advanceState cfg ForceCloseRequest arb
                in arb1\<lparr>observed := observed arb1 @
                     [Did (DoReply (if arbState arb1 = StateCommitmentBroadcasted then None
                                    else if arbState arb1 = StateBroadcastCommit
                                            \<and> PublishTx cfg = PublishFailed
                                         then Some ErrPublish
                                         else Some ErrCommitState))
                          (arbState arb1)]\<rparr>)
      | Epoch \<Rightarrow> advanceState cfg BlockEpoch arb
      | LocalClose \<Rightarrow>
          (case LogContractResolutions (log arb) of
             Inl e \<Rightarrow> arb
           | Inr _ \<Rightarrow> afterClose cfg LocalUnilateralClose arb)
      | RemoteClose \<Rightarrow>
          (case LogContractResolutions (log arb) of
             Inl e \<Rightarrow> arb
           | Inr _ \<Rightarrow> afterClose cfg RemoteUnilateralClose arb)
      | CoopClose \<Rightarrow> afterClose cfg CooperativeClose arb
      | Breach \<Rightarrow> advanceState cfg ContractBreach arb
      | ResolverSwept \<Rightarrow>
          if arbState arb = StateWaitingFullResolution
          then arb\<lparr>observed := observed arb @ [Did DoResolutionMsg (arbState arb)]\<rparr>
          else arb
      | ResolversDone \<Rightarrow> advanceState cfg ResolversFinished arb
      | Restart pending \<Rightarrow>
          advanceState cfg (case pending of None \<Rightarrow> BlockEpoch | Some t \<Rightarrow> t)
            (arb\<lparr>arbState := CurrentState (log arb)\<rparr>)
      | SetLog fl ff fc fs \<Rightarrow>
          arb\<lparr>log := (log arb)\<lparr>failLog := fl, failFetch := ff, failCommit := fc,
                                 failCommitState := fs\<rparr>\<rparr>)"

fun run :: "(ArbitratorConfig \<times> Event) list \<Rightarrow> ChannelArbitrator \<Rightarrow> ChannelArbitrator" where
  "run [] arb = arb"
| "run ((cfg, ev) # rest) arb = run rest (handleEvent cfg ev arb)"

text \<open>
  Modelled from the spec: the diagram of section 4.5. The arrow ``remote/coop close seen on
  chain'' from Default ends in ContractClosed for a unilateral close and in FullyResolved
  for a cooperative close (scenarios 1 and 2 of section 8), and a breach leads to
  FullyResolved from every state before it (failure semantics).
\<close>

fun diagram :: "ArbitratorState \<Rightarrow> ArbitratorState \<Rightarrow> bool" where
  "diagram StateDefault StateBroadcastCommit = True"
| "diagram StateDefault StateContractClosed = True"
| "diagram StateDefault StateFullyResolved = True"
| "diagram StateBroadcastCommit StateCommitmentBroadcasted = True"
| "diagram StateBroadcastCommit StateFullyResolved = True"
| "diagram StateCommitmentBroadcasted StateContractClosed = True"
| "diagram StateCommitmentBroadcasted StateFullyResolved = True"
| "diagram StateContractClosed StateWaitingFullResolution = True"
| "diagram StateContractClosed StateFullyResolved = True"
| "diagram StateWaitingFullResolution StateFullyResolved = True"
| "diagram _ _ = False"

text \<open>The states of a list, taken in order from a first state, follow the diagram.\<close>

fun follows :: "ArbitratorState \<Rightarrow> ArbitratorState list \<Rightarrow> bool" where
  "follows s [] = True"
| "follows s (x # xs) = (diagram s x \<and> follows x xs)"

text \<open>The states committed between two moments of an arbitrator.\<close>

definition committedSince :: "ChannelArbitrator \<Rightarrow> ChannelArbitrator \<Rightarrow> ArbitratorState list" where
  "committedSince arb arb' = drop (length (newStates (log arb))) (newStates (log arb'))"

text \<open>An arbitrator as \<^verbatim>\<open>Start\<close> leaves it: its state is the one of the log.\<close>

definition startArbitrator :: "mockArbitratorLog \<Rightarrow> ChannelArbitrator" where
  "startArbitrator lg = \<lparr> log = lg, arbState = CurrentState lg, observed = [] \<rparr>"

declare advanceState.simps [simp del]

text \<open>
  Notions of the claims on the arbitrator, over what was observed during the handling of
  one event: the states committed, in order; the persisted state after it, from the
  persisted state \<open>p\<close> before it; and the order of the persistence contract. A
  transaction is published, a resolution message is sent and the channel is marked
  resolved only in a state \<open>s\<close> of the arbitrator that is the persisted one, that is,
  after the \<^verbatim>\<open>CommitState\<close> of that state; the channel is marked closed before the
  first call of \<^verbatim>\<open>CommitState\<close> (the flag says that none was made yet); after a
  failed \<^verbatim>\<open>CommitState\<close> nothing but the reply to the caller follows.
\<close>

fun commits :: "Obs list \<Rightarrow> ArbitratorState list" where
  "commits [] = []"
| "commits (Committed n # rest) = n # commits rest"
| "commits (Did a s # rest) = commits rest"
| "commits (CommitFailed n # rest) = commits rest"

fun persisted :: "ArbitratorState \<Rightarrow> Obs list \<Rightarrow> ArbitratorState" where
  "persisted p [] = p"
| "persisted p (Committed n # rest) = persisted n rest"
| "persisted p (Did a s # rest) = persisted p rest"
| "persisted p (CommitFailed n # rest) = persisted p rest"

fun quiet :: "Obs list \<Rightarrow> bool" where
  "quiet [] = True"
| "quiet (Did (DoReply e) s # rest) = quiet rest"
| "quiet (x # rest) = False"

fun allowedIn :: "bool \<Rightarrow> ArbitratorState \<Rightarrow> ArbitratorState \<Rightarrow> Action \<Rightarrow> bool" where
  "allowedIn fresh p s DoPublishTx = (s = p)"
| "allowedIn fresh p s DoResolutionMsg = (s = p)"
| "allowedIn fresh p s DoMarkChannelResolved = (s = p)"
| "allowedIn fresh p s DoMarkChannelClosed = fresh"
| "allowedIn fresh p s (DoReply e) = True"

fun ordered :: "bool \<Rightarrow> ArbitratorState \<Rightarrow> Obs list \<Rightarrow> bool" where
  "ordered fresh p [] = True"
| "ordered fresh p (Did a s # rest) = (allowedIn fresh p s a \<and> ordered fresh p rest)"
| "ordered fresh p (Committed n # rest) = ordered False n rest"
| "ordered fresh p (CommitFailed n # rest) = quiet rest"

text \<open>What was observed between two moments of an arbitrator.\<close>

definition observedSince :: "ChannelArbitrator \<Rightarrow> ChannelArbitrator \<Rightarrow> Obs list" where
  "observedSince arb arb' = drop (length (observed arb)) (observed arb')"

text \<open>The log and the configuration of the tests that inject no failure, and the log of
  the test of a failing commit, which fails at \<^verbatim>\<open>StateFullyResolved\<close>.\<close>

definition log0 :: mockArbitratorLog where
  "log0 = \<lparr> state = StateDefault, newStates = [], failLog = False, failFetch = False,
            failCommit = False, failCommitState = StateDefault \<rparr>"

definition cfg0 :: ArbitratorConfig where
  "cfg0 = \<lparr> PublishTx = PublishOk, MarkChannelClosed = True, htlcNearExpiry = False,
            liveHtlcs = False, unresolvedContracts = False \<rparr>"

definition logFailCommit :: mockArbitratorLog where
  "logFailCommit = log0\<lparr>failCommit := True, failCommitState := StateFullyResolved\<rparr>"

text \<open>The arbitrator of the test of a local force close with a pending htlc, once the own
  commitment is confirmed: the resolver of the htlc is running.\<close>

definition cfgPendingHtlc :: ArbitratorConfig where
  "cfgPendingHtlc = cfg0\<lparr>liveHtlcs := True, unresolvedContracts := True\<rparr>"

definition arbPendingHtlc :: ChannelArbitrator where
  "arbPendingHtlc =
     run [(cfg0, ForceCloseReq), (cfgPendingHtlc, LocalClose)] (startArbitrator log0)"

section \<open>Facts about the encodings\<close>

lemma bindE_Inr [simp]: "bindE (Inr x) f = f x"
  by (simp add: bindE_def)

lemma bindE_Inl [simp]: "bindE (Inl e) f = Inl e"
  by (simp add: bindE_def)

lemma length_be_bytes [simp]: "length (be_bytes n x) = n"
  by (induction n arbitrary: x) auto

lemma be_nat_snoc: "be_nat (bs @ [b]) = be_nat bs * 256 + unat b"
  by (simp add: be_nat_def)

lemma be_nat_be_bytes: "be_nat (be_bytes n x) = x mod 256 ^ n"
proof (induction n arbitrary: x)
  case 0
  then show ?case by (simp add: be_nat_def)
next
  case (Suc n)
  have "be_nat (be_bytes (Suc n) x) = (x div 256) mod 256 ^ n * 256 + x mod 256"
    by (simp add: be_nat_snoc Suc unat_of_nat)
  also have "\<dots> = x mod 256 ^ Suc n"
    by (simp add: mod_mult2_eq mult.commute)
  finally show ?case .
qed

lemma be_roundtrip_word:
  fixes w :: "'a::len word"
  assumes "LENGTH('a) = 8 * n"
  shows "(of_nat (be_nat (be_bytes n (unat w))) :: 'a word) = w"
proof -
  have "unat w < 2 ^ LENGTH('a)" by (rule unsigned_less)
  also have "(2::nat) ^ LENGTH('a) = 256 ^ n"
    using assms by (simp add: power_mult)
  finally have "unat w mod 256 ^ n = unat w" by simp
  then show ?thesis by (simp add: be_nat_be_bytes)
qed

lemma readFull_append:
  "length xs = n \<Longrightarrow> 0 < n \<Longrightarrow> readFull n (xs @ rest) = Inr (xs, rest)"
  by (auto simp: readFull_def)

lemma read_be_append:
  fixes w :: "'a::len word"
  assumes "LENGTH('a) = 8 * n" and "0 < n"
  shows "read_be n (be_bytes n (unat w) @ rest) = Inr (w, rest)"
  using assms by (simp add: read_be_def readFull_append be_roundtrip_word)

lemma read_be_WriteElement:
  fixes w :: "'a::len word"
  assumes "LENGTH('a) = 8 * n" and "0 < n"
  shows "read_be n (WriteElement_uint n w @ rest) = Inr (w, rest)"
  using assms by (simp add: WriteElement_uint_def read_be_append)

lemma ReadElement_key_append:
  "length (ser k) = 33 \<Longrightarrow> parse (ser k) = Some k \<Longrightarrow>
   ReadElement_key parse (ser k @ rest) = Inr (k, rest)"
  by (simp add: ReadElement_key_def readFull_append)

lemma ser33_codec: "length (ser33 k) = 33 \<and> parse33 (ser33 k) = Some k"
  by (simp add: ser33_def parse33_def be_roundtrip_word)

section \<open>Facts about the invoice store\<close>

lemma bindE_isl: "isl (bindE m f) \<longleftrightarrow> isl m \<or> (\<exists>x. m = Inr x \<and> isl (f x))"
  by (cases m) auto

lemma MarshalBinary_marshals:
  "marshals loff t \<Longrightarrow> \<exists>bs. MarshalBinary loff t = Inr bs \<and> length bs = 15"
  by (cases "zoneMinutes loff t") (auto simp: MarshalBinary_def marshals_def)

lemma MarshalBinary_Inr_marshals: "MarshalBinary loff t = Inr bs \<Longrightarrow> marshals loff t"
  by (cases "zoneMinutes loff t") (auto simp: MarshalBinary_def marshals_def)

lemma serializeInvoice_marshals:
  assumes "marshals loff (CreationDate i)" and "marshals loff (SettleDate i)"
  shows "\<exists>buf. serializeInvoice loff i = Inr buf"
proof -
  obtain b1 where b1: "MarshalBinary loff (CreationDate i) = Inr b1"
    using assms(1) MarshalBinary_marshals by blast
  obtain b2 where b2: "MarshalBinary loff (SettleDate i) = Inr b2"
    using assms(2) MarshalBinary_marshals by blast
  show ?thesis by (simp add: serializeInvoice_def b1 b2)
qed

lemma kvGet_kvPut_same [simp]: "kvGet k (kvPut k v es) = Some v"
  by (induction es) (auto simp: kvGet_def)

lemma kvGet_kvPut_other [simp]: "k' \<noteq> k \<Longrightarrow> kvGet k' (kvPut k v es) = kvGet k' es"
  by (induction es) (auto simp: kvGet_def)

lemma validateInvoice_Inr:
  "validateInvoice i = Inr u \<longleftrightarrow>
     length (Memo i) \<le> MaxMemoSize \<and> length (Receipt i) \<le> MaxReceiptSize
     \<and> length (PaymentRequest i) \<le> MaxPaymentRequestSize"
  by (auto simp: validateInvoice_def)

lemma validateInvoice_Inl:
  "validateInvoice i = Inl e \<longleftrightarrow>
     e = ErrValidateInvoice \<and> (length (Memo i) > MaxMemoSize \<or> length (Receipt i) > MaxReceiptSize
     \<or> length (PaymentRequest i) > MaxPaymentRequestSize)"
  by (auto simp: validateInvoice_def)

lemma AddInvoice_invalid:
  "validateInvoice i = Inl e \<Longrightarrow> AddInvoice loff db i h = (Inl e, db)"
  by (simp add: AddInvoice_def)

lemma AddInvoice_duplicate:
  "validateInvoice i = Inr () \<Longrightarrow> hashStored db h
   \<Longrightarrow> AddInvoice loff db i h = (Inl ErrDuplicateInvoice, db)"
  by (simp add: AddInvoice_def hashStored_def invoicesOf_def Let_def)

lemma AddInvoice_success:
  assumes v: "validateInvoice i = Inr ()"
    and nd: "\<not> hashStored db h"
    and c: "counterOk db"
    and s: "serializeInvoice loff (i\<lparr>AddIndex := nextAddIndex db\<rparr>) = Inr buf"
  shows "\<exists>invoices'. AddInvoice loff db i h
           = (Inr (nextAddIndex db, i\<lparr>AddIndex := nextAddIndex db\<rparr>), Some invoices')
         \<and> settleIndexBucket invoices' = settleIndexBucket (invoicesOf db)
         \<and> (\<exists>idx. invoiceIndexBucket invoices' = Some idx
               \<and> (\<exists>key. kvGet (be_bytes 32 (unat h)) (entries idx) = Some key
                      \<and> kvGet key (invoiceEntries invoices') = Some buf))
         \<and> (\<exists>a. addIndexBucket invoices' = Some a \<and> sequence a = nextAddIndex db)"
proof (cases "kvGet numInvoicesKey (entries (createIfNotExists (invoiceIndexBucket (invoicesOf db))))")
  case None
  then show ?thesis
    using v nd s
    by (simp add: AddInvoice_def hashStored_def invoicesOf_def nextAddIndex_def addSequence_def
        Let_def putInvoice_def NextSequence_def bucketPut_def)
next
  case (Some cnt)
  then have "4 \<le> length cnt" using c by (simp add: counterOk_def)
  then show ?thesis
    using v nd s Some
    by (simp add: AddInvoice_def hashStored_def invoicesOf_def nextAddIndex_def addSequence_def
        Let_def putInvoice_def NextSequence_def bucketPut_def)
qed

lemma AddInvoice_success_marshals:
  assumes v: "validateInvoice i = Inr ()"
    and nd: "\<not> hashStored db h"
    and c: "counterOk db"
    and m1: "marshals loff (CreationDate i)" and m2: "marshals loff (SettleDate i)"
  shows "\<exists>db'. AddInvoice loff db i h
           = (Inr (nextAddIndex db, i\<lparr>AddIndex := nextAddIndex db\<rparr>), db')
         \<and> hashStored db' h \<and> addSequence db' = nextAddIndex db
         \<and> settleIndexBucket (invoicesOf db') = settleIndexBucket (invoicesOf db)"
proof -
  obtain buf where "serializeInvoice loff (i\<lparr>AddIndex := nextAddIndex db\<rparr>) = Inr buf"
    using serializeInvoice_marshals [of loff "i\<lparr>AddIndex := nextAddIndex db\<rparr>"] m1 m2 by auto
  from AddInvoice_success [OF v nd c this]
  show ?thesis
    by (auto simp: hashStored_def addSequence_def invoicesOf_def createIfNotExists_def)
qed

lemma marshals_Unix0_loff0: "marshals loff0 (Unix0 ns)"
  by (simp add: marshals_def zoneMinutes_def Unix0_def loff0_def)

lemma marshals_zeroTime: "marshals loff zeroTime"
  by (simp add: marshals_def zoneMinutes_def zeroTime_def)

lemma word64_succ_ge_1:
  fixes s :: "64 word"
  shows "s \<noteq> - 1 \<Longrightarrow> 1 \<le> s + 1"
proof -
  assume "s \<noteq> - 1"
  then have "s + 1 \<noteq> 0" by (simp add: eq_neg_iff_add_eq_0)
  then show ?thesis by (simp add: word_le_nat_alt unat_gt_0 Suc_leI)
qed

section \<open>Facts about serializeInvoice and deserializeInvoice\<close>

lemma le_nat_le_bytes: "le_nat (le_bytes n x) = x mod 256 ^ n"
  by (simp add: le_nat_def le_bytes_def be_nat_be_bytes)

lemma length_le_bytes [simp]: "length (le_bytes n x) = n"
  by (simp add: le_bytes_def)

lemma ReadVarInt_sized_append:
  assumes "0 < n" and "v < 256 ^ n" and "minv \<le> v"
  shows "ReadVarInt_sized n minv (le_bytes n v @ rest) = Inr (v, rest)"
  using assms by (simp add: ReadVarInt_sized_def readFull_append le_nat_le_bytes)

lemma unat_byte_of_nat: "v < 256 \<Longrightarrow> unat (of_nat v :: byte) = v"
  by (simp add: unat_of_nat)

lemma ReadVarInt_WriteVarInt:
  assumes "v < 2 ^ 64"
  shows "ReadVarInt (WriteVarInt v @ rest) = Inr (v, rest)"
proof -
  consider (a) "v < 0xfd" | (b) "0xfd \<le> v" "v \<le> 0xffff" | (c) "0xffff < v" "v \<le> 0xffffffff"
    | (d) "0xffffffff < v"
    by linarith
  then show ?thesis
  proof cases
    case a
    then have u: "unat (of_nat v :: byte) = v" by (simp add: unat_byte_of_nat)
    have ne: "(of_nat v :: byte) \<noteq> 0xff" "(of_nat v :: byte) \<noteq> 0xfe" "(of_nat v :: byte) \<noteq> 0xfd"
      using u a by auto
    show ?thesis
      using a ne u by (simp add: ReadVarInt_def WriteVarInt_def readFull_def)
  next
    case b
    then show ?thesis
      by (simp add: ReadVarInt_def WriteVarInt_def readFull_def ReadVarInt_sized_append)
  next
    case c
    then show ?thesis
      by (simp add: ReadVarInt_def WriteVarInt_def readFull_def ReadVarInt_sized_append)
  next
    case d
    then show ?thesis
      using assms
      by (simp add: ReadVarInt_def WriteVarInt_def readFull_def ReadVarInt_sized_append)
  qed
qed

lemma readFull_length_append: "readFull (length xs) (xs @ rest) = Inr (xs, rest)"
  by (cases xs) (auto simp: readFull_def)

lemma ReadVarBytes_WriteVarBytes:
  assumes "length bs < 2 ^ 64"
  shows "ReadVarBytes maxAllowed (WriteVarBytes bs @ rest)
         = (if length bs > maxAllowed then Inl ErrVarBytesTooLong else Inr (bs, rest))"
  using assms
  by (simp add: ReadVarBytes_def WriteVarBytes_def ReadVarInt_WriteVarInt readFull_length_append)

lemma take_append_eq: "length xs = n \<Longrightarrow> take n (xs @ ys) = xs"
  by simp

lemma drop_append_eq: "length xs = n \<Longrightarrow> drop n (xs @ ys) = ys"
  by simp

lemma sint16_of_int:
  assumes "- 32768 \<le> m" and "m \<le> 32767"
  shows "sint (of_int m :: 16 word) = m"
  using assms by (simp add: sint_sbintrunc' signed_take_bit_int_eq_self)

lemma zoneMinutes_Inr:
  assumes "zoneMinutes loff t = Inr m"
  shows "- 32768 \<le> m \<and> m \<le> 32767
     \<and> (if m * 60 = - 60 then UTC else if m * 60 = loff (t_sec t) then Local else FixedZone (m * 60))
         = canonLoc loff t"
  using assms
  by (auto simp: zoneMinutes_def canonLoc_def Let_def split: Location.splits if_splits)

lemma UnmarshalBinary_MarshalBinary:
  assumes "MarshalBinary loff t = Inr bs"
  shows "UnmarshalBinary loff bs = Inr (normDate loff t) \<and> length bs = 15"
proof -
  obtain m where m: "zoneMinutes loff t = Inr m"
    and bs: "bs = [1] @ be_bytes 8 (unat (t_sec t)) @ be_bytes 4 (unat (t_nsec t))
            @ be_bytes 2 (unat (of_int m :: 16 word))"
    using assms by (cases "zoneMinutes loff t") (auto simp: MarshalBinary_def)
  have z: "- 32768 \<le> m \<and> m \<le> 32767
     \<and> (if m * 60 = - 60 then UTC else if m * 60 = loff (t_sec t) then Local else FixedZone (m * 60))
         = canonLoc loff t"
    using zoneMinutes_Inr [OF m] .
  have s: "(of_nat (be_nat (take 8 (drop 1 bs))) :: 64 word) = t_sec t"
    by (simp add: bs be_roundtrip_word)
  have n: "(of_nat (be_nat (take 4 (drop 9 bs))) :: 32 word) = t_nsec t"
    by (simp add: bs be_roundtrip_word)
  have o: "sint (of_nat (be_nat (drop 13 bs)) :: 16 word) = m"
    using z by (simp add: bs be_roundtrip_word sint16_of_int)
  have l: "length bs = 15" by (simp add: bs)
  have h: "bs \<noteq> [] \<and> hd bs = 1" by (simp add: bs)
  show ?thesis
    unfolding UnmarshalBinary_def Let_def s n o normDate_def
    using l h z by (simp add: Time.equality)
qed

lemma sint64_of_int:
  assumes "- (2 ^ 63) \<le> k" and "k < 2 ^ 63"
  shows "sint (of_int k :: 64 word) = k"
  using assms by (simp add: sint_sbintrunc' signed_take_bit_int_eq_self)

lemma sint32_small:
  fixes w :: "32 word"
  assumes "uint w < 1000000000"
  shows "sint w = uint w"
proof -
  have b1: "- (2 ^ 31) \<le> uint w"
    using order_trans [of "- (2 ^ 31)" 0 "uint w"] by simp
  have b2: "uint w < 2 ^ 31"
    using assms by simp
  note b = b1 b2
  have "sint (of_int (uint w) :: 32 word) = uint w"
    unfolding sint_sbintrunc' using b by (simp add: signed_take_bit_int_eq_self)
  then show ?thesis by simp
qed

lemma divmod_nanos:
  fixes a n :: int
  assumes "0 \<le> n" and "n < 1000000000"
  shows "(a * 1000000000 + n) div 1000000000 = a" and "(a * 1000000000 + n) mod 1000000000 = n"
  using assms by simp_all

lemma UnixNano_of_int:
  assumes "uint (t_nsec t) < 1000000000"
  shows "UnixNano t = of_int ((sint (t_sec t) - unixToInternal) * 1000000000 + uint (t_nsec t))"
  using assms by (simp add: UnixNano_def scast_eq sint32_small del: of_int_uint)

lemma Unix0_UnixNano:
  assumes "nanoTime t"
  shows "Unix0 (UnixNano t) = t"
proof -
  define k where "k = (sint (t_sec t) - unixToInternal) * 1000000000 + uint (t_nsec t)"
  have n: "uint (t_nsec t) < 1000000000" and lo: "- (2 ^ 63) \<le> k" and hi: "k < 2 ^ 63"
    and l: "t_loc t = Local" and m: "t_mono t = None"
    using assms by (simp_all add: nanoTime_def k_def)
  have u: "UnixNano t = of_int k"
    using UnixNano_of_int [OF n] by (simp add: k_def)
  have s: "sint (UnixNano t) = k"
    using lo hi by (simp add: u sint64_of_int)
  have d: "k div 1000000000 = sint (t_sec t) - unixToInternal"
    and r: "k mod 1000000000 = uint (t_nsec t)"
    using divmod_nanos [of "uint (t_nsec t)" "sint (t_sec t) - unixToInternal"] n
    by (simp_all add: k_def)
  show ?thesis
    by (simp add: Unix0_def s d r l m Time.equality)
qed

lemma uint32_nanos:
  assumes "0 \<le> r" and "r < 1000000000"
  shows "uint (of_int r :: 32 word) = r"
  using assms by (simp add: uint_word_of_int take_bit_int_eq_self)

lemma UnixNano_Unix0: "UnixNano (Unix0 ns) = ns"
proof -
  define q where "q = sint ns div 1000000000"
  define r where "r = sint ns mod 1000000000"
  have rb: "0 \<le> r" "r < 1000000000" by (simp_all add: r_def)
  have un: "uint (of_int r :: 32 word) = r" using rb by (rule uint32_nanos)
  have sc: "(scast (of_int r :: 32 word) :: 64 word) = of_int r"
    using rb un by (simp add: scast_eq sint32_small)
  have "UnixNano (Unix0 ns) = (of_int (q + unixToInternal) - of_int unixToInternal) * 1000000000
      + scast (of_int r :: 32 word)"
    by (simp add: UnixNano_def Unix0_def q_def r_def)
  also have "\<dots> = of_int (q * 1000000000 + r)"
    by (simp add: sc)
  also have "q * 1000000000 + r = sint ns"
    by (simp add: q_def r_def)
  finally show ?thesis by simp
qed

lemma nanoTime_Unix0: "nanoTime (Unix0 ns)"
proof -
  define q where "q = sint ns div 1000000000 + unixToInternal"
  define r where "r = sint ns mod 1000000000"
  have rb: "0 \<le> r" "r < 1000000000" by (simp_all add: r_def)
  have un: "uint (of_int r :: 32 word) = r" using rb by (rule uint32_nanos)
  have b: "- (2 ^ 63) \<le> sint ns" "sint ns < 2 ^ 63"
    using sint_ge [of ns] sint_lt [of ns] by simp_all
  have d: "- (2 ^ 63) \<le> q" "q < 2 ^ 63"
    using b by (simp_all add: unixToInternal_def q_def)
  have ss: "sint (of_int q :: 64 word) = q"
    using d by (rule sint64_of_int)
  have k: "(q - unixToInternal) * 1000000000 + r = sint ns"
    by (simp add: q_def r_def)
  have u: "Unix0 ns = \<lparr> t_sec = of_int q, t_nsec = of_int r, t_mono = None, t_loc = Local \<rparr>"
    by (simp add: Unix0_def q_def r_def)
  have "t_loc (Unix0 ns) = Local \<and> t_mono (Unix0 ns) = None
      \<and> uint (t_nsec (Unix0 ns)) = r \<and> sint (t_sec (Unix0 ns)) = q"
    by (simp add: u un ss)
  then show ?thesis
    unfolding nanoTime_def
    using b rb k by (simp only:)
qed

lemma be_byte_roundtrip: "(of_nat (be_nat (be_bytes 1 (unat w))) :: 8 word) = w"
  using be_roundtrip_word [of 1 w] by simp

lemma tlvDecode_known:
  assumes "fieldSize t = Some n" and "t < 0xfd" and "n < 0xfd" and "length v = n" and "minT \<le> t"
  shows "tlvDecode minT f (tlv_record t v @ rest) = tlvDecode (t + 1) (setField t v f) rest"
proof -
  have t: "unat (of_nat t :: byte) = t" using assms(2) by (simp add: unat_byte_of_nat)
  have n: "unat (of_nat n :: byte) = n" using assms(3) by (simp add: unat_byte_of_nat)
  show ?thesis
    using assms by (simp add: tlv_record_def t n)
qed

lemma length_htlcStream: "length (htlcStream key htlc) = 65"
  by (simp add: htlcStream_def tlv_record_def)

lemma tlvDecode_htlcStream:
  "tlvDecode 0 zeroFields (htlcStream key htlc) =
     Inr \<lparr> f_chanID = ChanID key, f_htlcID = HtlcID key, f_amt = Amt htlc,
           f_acceptHeight = AcceptHeight htlc, f_acceptTime = UnixNano (AcceptTime htlc),
           f_resolveTime = UnixNano (ResolveTime htlc), f_expiryHeight = Expiry_htlc htlc,
           f_state = State_htlc htlc \<rparr>"
proof -
  have e: "htlcStream key htlc =
     tlv_record 1 (be_bytes 8 (unat (ChanID key))) @
     tlv_record 3 (be_bytes 8 (unat (HtlcID key))) @
     tlv_record 5 (be_bytes 8 (unat (Amt htlc))) @
     tlv_record 7 (be_bytes 4 (unat (AcceptHeight htlc))) @
     tlv_record 9 (be_bytes 8 (unat (UnixNano (AcceptTime htlc)))) @
     tlv_record 11 (be_bytes 8 (unat (UnixNano (ResolveTime htlc)))) @
     tlv_record 13 (be_bytes 4 (unat (Expiry_htlc htlc))) @
     tlv_record 15 (be_bytes 1 (unat (State_htlc htlc))) @ []"
    by (simp add: htlcStream_def)
  show ?thesis
    unfolding e
    by (simp add: tlvDecode_known fieldSize_def setField_def zeroFields_def be_roundtrip_word
        be_byte_roundtrip del: append_Nil2 be_bytes.simps)
qed

lemma htlcOfFields_htlcStream:
  "htlcOfFields \<lparr> f_chanID = ChanID key, f_htlcID = HtlcID key, f_amt = Amt htlc,
           f_acceptHeight = AcceptHeight htlc, f_acceptTime = UnixNano (AcceptTime htlc),
           f_resolveTime = UnixNano (ResolveTime htlc), f_expiryHeight = Expiry_htlc htlc,
           f_state = State_htlc htlc \<rparr> = (key, normHtlc htlc)"
  by (simp add: htlcOfFields_def normHtlc_def)

lemma deserializeHtlcs_loop_step:
  "deserializeHtlcs_loop acc (be_bytes 8 (length (htlcStream key htlc)) @ htlcStream key htlc @ rest)
   = deserializeHtlcs_loop (AList.update key (normHtlc htlc) acc) rest"
proof -
  define r where "r = be_bytes 8 (length (htlcStream key htlc)) @ htlcStream key htlc @ rest"
  have t8: "take 8 r = be_bytes 8 65" and d8: "drop 8 r = htlcStream key htlc @ rest"
    by (simp_all add: r_def length_htlcStream)
  have n: "be_nat (take 8 r) = 65"
    by (simp add: t8 be_nat_be_bytes)
  have ne: "r \<noteq> []" "\<not> length r < 8" "drop 8 r \<noteq> []"
    using length_htlcStream [of key htlc] by (auto simp: r_def)
  have tk: "take 65 (drop 8 r) @ replicate (65 - length (drop 8 r)) 0 = htlcStream key htlc"
    by (simp add: d8 length_htlcStream)
  have dr: "drop 65 (drop 8 r) = rest"
    by (simp add: d8 length_htlcStream)
  have "deserializeHtlcs_loop acc r = deserializeHtlcs_loop (AList.update key (normHtlc htlc) acc) rest"
    apply (subst deserializeHtlcs_loop.simps)
    apply (simp only: ne n tk dr if_False)
    apply (simp add: maxAlloc_def tlvDecode_htlcStream htlcOfFields_htlcStream)
    done
  then show ?thesis by (simp add: r_def)
qed

lemma deserializeHtlcs_loop_serializeHtlcs:
  "deserializeHtlcs_loop acc (serializeHtlcs htlcs) = Inr (insertAll acc htlcs)"
proof (induction htlcs arbitrary: acc)
  case Nil
  show ?case by (subst deserializeHtlcs_loop.simps) simp
next
  case (Cons p htlcs)
  obtain key htlc where p: "p = (key, htlc)" by (cases p)
  show ?case
    using Cons [of "AList.update key (normHtlc htlc) acc"]
    by (simp add: p deserializeHtlcs_loop_step)
qed

lemma update_fresh: "k \<notin> fst ` set al \<Longrightarrow> AList.update k v al = al @ [(k, v)]"
  by (induction al) auto

lemma insertAll_distinct:
  "distinct (map fst acc @ map fst htlcs)
   \<Longrightarrow> insertAll acc htlcs = acc @ map (\<lambda>(k, h). (k, normHtlc h)) htlcs"
proof (induction htlcs arbitrary: acc)
  case Nil
  show ?case by simp
next
  case (Cons p htlcs)
  obtain key htlc where p: "p = (key, htlc)" by (cases p)
  have f: "key \<notin> fst ` set acc" using Cons.prems by (auto simp: p)
  have d: "distinct (map fst (acc @ [(key, normHtlc htlc)]) @ map fst htlcs)"
    using Cons.prems by (auto simp: p)
  show ?case
    using Cons.IH [OF d] by (simp add: p update_fresh [OF f])
qed

lemma deserializeHtlcs_serializeHtlcs:
  "distinct (map fst htlcs)
   \<Longrightarrow> deserializeHtlcs (serializeHtlcs htlcs) = Inr (map (\<lambda>(k, h). (k, normHtlc h)) htlcs)"
  using insertAll_distinct [of "[]" htlcs]
  by (simp add: deserializeHtlcs_def deserializeHtlcs_loop_serializeHtlcs)


lemma readTime_MarshalBinary:
  assumes "MarshalBinary loff t = Inr b"
  shows "readTime loff (WriteVarBytes b @ rest) = Inr (normDate loff t, rest)"
proof -
  have u: "UnmarshalBinary loff b = Inr (normDate loff t)" and l: "length b = 15"
    using UnmarshalBinary_MarshalBinary [OF assms] by simp_all
  show ?thesis
    by (simp add: readTime_def ReadVarBytes_WriteVarBytes l u)
qed

lemma read_be_1: "read_be 1 (be_bytes 1 (unat (w :: 8 word)) @ rest) = Inr (w, rest)"
  by (rule read_be_append) simp_all

lemma deserializeInvoice_serializeInvoice:
  assumes s: "serializeInvoice loff i = Inr bs"
    and m: "length (Memo i) \<le> MaxMemoSize"
    and r: "length (Receipt i) \<le> MaxReceiptSize"
    and p: "length (PaymentRequest i) \<le> MaxPaymentRequestSize"
    and d: "distinct (map fst (Htlcs i))"
  shows "deserializeInvoice loff bs = Inr (normInvoice loff i)"
proof -
  obtain b1 where b1: "MarshalBinary loff (CreationDate i) = Inr b1"
    using s by (cases "MarshalBinary loff (CreationDate i)") (auto simp: serializeInvoice_def)
  obtain b2 where b2: "MarshalBinary loff (SettleDate i) = Inr b2"
    using s b1 by (cases "MarshalBinary loff (SettleDate i)") (auto simp: serializeInvoice_def)
  have bs: "bs = WriteVarBytes (Memo i) @
            WriteVarBytes (Receipt i) @
            WriteVarBytes (PaymentRequest i) @
            be_bytes 4 (unat (FinalCltvDelta i)) @
            be_bytes 8 (unat (Expiry i)) @
            WriteVarBytes b1 @
            WriteVarBytes b2 @
            be_bytes 32 (unat (PaymentPreimage (Terms i))) @
            be_bytes 8 (unat (Value (Terms i))) @
            be_bytes 1 (unat (State (Terms i))) @
            be_bytes 8 (unat (AddIndex i)) @
            be_bytes 8 (unat (SettleIndex i)) @
            be_bytes 8 (unat (AmtPaid i)) @
            serializeHtlcs (Htlcs i)"
    using s by (simp add: serializeInvoice_def b1 b2)
  have lm: "length (Memo i) < 2 ^ 64" "length (Receipt i) < 2 ^ 64" "length (PaymentRequest i) < 2 ^ 64"
    using m r p by (simp_all add: MaxMemoSize_def MaxReceiptSize_def MaxPaymentRequestSize_def)
  have "deserializeInvoice loff bs =
     Inr \<lparr> Memo = Memo i, Receipt = Receipt i, PaymentRequest = PaymentRequest i,
           FinalCltvDelta = FinalCltvDelta i, Expiry = Expiry i,
           CreationDate = normDate loff (CreationDate i),
           SettleDate = normDate loff (SettleDate i),
           Terms = \<lparr> PaymentPreimage = PaymentPreimage (Terms i), Value = Value (Terms i),
                     State = State (Terms i) \<rparr>,
           AddIndex = AddIndex i, SettleIndex = SettleIndex i, AmtPaid = AmtPaid i,
           Htlcs = map (\<lambda>(k, h). (k, normHtlc h)) (Htlcs i) \<rparr>"
    unfolding deserializeInvoice_def bs
    using m r p lm
    by (simp add: ReadVarBytes_WriteVarBytes read_be_append read_be_1
        readTime_MarshalBinary [OF b1] readTime_MarshalBinary [OF b2]
        deserializeHtlcs_serializeHtlcs [OF d] del: be_bytes.simps)
  also have "\<dots> = Inr (normInvoice loff i)"
    by (simp add: normInvoice_def)
  finally show ?thesis .
qed

lemma normDate_storable: "storableDate loff t \<Longrightarrow> normDate loff t = t"
  by (auto simp: storableDate_def normDate_def canonLoc_def split: Location.splits)

lemma normHtlc_storable: "storableHtlc h \<Longrightarrow> normHtlc h = h"
  by (simp add: storableHtlc_def normHtlc_def Unix0_UnixNano)

lemma map_normHtlc_storable:
  "\<forall>h \<in> snd ` set htlcs. storableHtlc h \<Longrightarrow> map (\<lambda>(k, h). (k, normHtlc h)) htlcs = htlcs"
  by (induction htlcs) (auto simp: normHtlc_storable)

lemma normInvoice_storable:
  assumes "storableDate loff (CreationDate i)" and "storableDate loff (SettleDate i)"
    and "\<forall>h \<in> snd ` set (Htlcs i). storableHtlc h"
  shows "normInvoice loff i = i"
  using assms by (simp add: normInvoice_def normDate_storable map_normHtlc_storable)

lemma deserializeInvoice_big_memo:
  assumes s: "serializeInvoice loff i = Inr bs"
    and m: "MaxMemoSize < length (Memo i)" and l: "length (Memo i) < 2 ^ 64"
  shows "deserializeInvoice loff bs = Inl ErrVarBytesTooLong"
proof -
  obtain rest where "bs = WriteVarBytes (Memo i) @ rest"
    using s
    by (auto simp: serializeInvoice_def bindE_def split: sum.splits)
  then show ?thesis
    using m l by (simp add: deserializeInvoice_def ReadVarBytes_WriteVarBytes)
qed

lemma storableDate_Unix0_loff0: "storableDate loff0 (Unix0 ns)"
  by (simp add: storableDate_def marshals_Unix0_loff0) (simp add: Unix0_def)

lemma storableDate_zeroTime: "storableDate loff zeroTime"
  by (simp add: storableDate_def marshals_zeroTime) (simp add: zeroTime_def)

section \<open>Facts about UpdateInvoice\<close>

lemma derefHtlcs_allocHtlcs:
  "derefHtlcs (snd (allocHtlcs htlcs)) (fst (allocHtlcs htlcs)) = htlcs"
proof -
  have "map (\<lambda>(key, a). (key, if a < length htlcs then snd (htlcs ! a) else zeroHtlc))
          (zip (map fst htlcs) [0..<length htlcs]) = htlcs"
    by (rule nth_equalityI) (auto simp: nth_zip)
  then show ?thesis by (simp add: derefHtlcs_def allocHtlcs_def)
qed

lemma withHtlcs_same [simp]: "withHtlcs i (Htlcs i) = i"
  by (simp add: withHtlcs_def)

lemma withHtlcs_sel [simp]:
  "Htlcs (withHtlcs i hs) = hs" "Terms (withHtlcs i hs) = Terms i"
  "AmtPaid (withHtlcs i hs) = AmtPaid i" "Memo (withHtlcs i hs) = Memo i"
  "Receipt (withHtlcs i hs) = Receipt i" "PaymentRequest (withHtlcs i hs) = PaymentRequest i"
  "CreationDate (withHtlcs i hs) = CreationDate i" "SettleDate (withHtlcs i hs) = SettleDate i"
  "AddIndex (withHtlcs i hs) = AddIndex i" "SettleIndex (withHtlcs i hs) = SettleIndex i"
  "FinalCltvDelta (withHtlcs i hs) = FinalCltvDelta i" "Expiry (withHtlcs i hs) = Expiry i"
  by (simp_all add: withHtlcs_def)

lemma callbackResult_readOnly:
  assumes "readOnly callback"
  shows "snd (callbackResult callback invoice) = invoice"
proof -
  obtain ptrs h0 where a: "allocHtlcs (Htlcs invoice) = (ptrs, h0)" by (cases "allocHtlcs (Htlcs invoice)")
  obtain res h1 where c: "callback (copyInvoice (withHtlcs invoice ptrs)) h0 = (res, h1)"
    by (cases "callback (copyInvoice (withHtlcs invoice ptrs)) h0")
  have "h1 = h0" using assms c by (metis readOnly_def snd_conv)
  moreover have "derefHtlcs h0 ptrs = Htlcs invoice"
    using derefHtlcs_allocHtlcs [of "Htlcs invoice"] by (simp add: a)
  ultimately show ?thesis by (simp add: callbackResult_def a c)
qed

lemma callbackResult_keys:
  "map fst (Htlcs (snd (callbackResult callback invoice))) = map fst (Htlcs invoice)"
proof -
  obtain ptrs h0 where a: "allocHtlcs (Htlcs invoice) = (ptrs, h0)" by (cases "allocHtlcs (Htlcs invoice)")
  obtain res h1 where c: "callback (copyInvoice (withHtlcs invoice ptrs)) h0 = (res, h1)"
    by (cases "callback (copyInvoice (withHtlcs invoice ptrs)) h0")
  have p: "ptrs = zip (map fst (Htlcs invoice)) [0..<length (Htlcs invoice)]"
    using a by (simp add: allocHtlcs_def)
  have "map fst (derefHtlcs h1 ptrs) = map fst ptrs"
    by (simp add: derefHtlcs_def case_prod_unfold)
  also have "\<dots> = map fst (Htlcs invoice)" by (simp add: p)
  finally show ?thesis by (simp add: callbackResult_def a c)
qed

lemma callbackResult_fields:
  "Terms (snd (callbackResult callback invoice)) = Terms invoice"
  "AmtPaid (snd (callbackResult callback invoice)) = AmtPaid invoice"
  "Memo (snd (callbackResult callback invoice)) = Memo invoice"
  "Receipt (snd (callbackResult callback invoice)) = Receipt invoice"
  "PaymentRequest (snd (callbackResult callback invoice)) = PaymentRequest invoice"
  "CreationDate (snd (callbackResult callback invoice)) = CreationDate invoice"
  "SettleDate (snd (callbackResult callback invoice)) = SettleDate invoice"
  by (simp_all add: callbackResult_def case_prod_unfold Let_def)

lemma updateInvoice_unfold:
  assumes f: "fetchInvoice loff invoiceNum invoices = Inr invoice"
    and c: "callbackResult callback invoice = (res, invoice1)"
  shows "updateInvoice loff hashOf now hash invoices settleIndex invoiceNum callback =
     (case res of
        Inl e \<Rightarrow> Inl (e, Some invoice1)
      | Inr update \<Rightarrow>
         (case applyHtlcUpdates (State (Terms invoice)) now (Htlcs_upd update)
                 (invoice1\<lparr>Terms := (Terms invoice1)\<lparr>State := State_upd update\<rparr>\<rparr>) of
            Inl e \<Rightarrow> Inl (e, None)
          | Inr invoice2 \<Rightarrow>
             (case (if State (Terms invoice) \<noteq> State (Terms invoice2)
                       \<and> State (Terms invoice2) = ContractSettled
                    then (if hashOf (Preimage update) \<noteq> hash then Inl ErrPreimageMismatch
                          else Inr (setSettleFields settleIndex invoiceNum
                                 (invoice2\<lparr>Terms := (Terms invoice2)\<lparr>PaymentPreimage := Preimage update\<rparr>,
                                           Htlcs := map (\<lambda>(k, htlc). (k, settleAccepted now htlc))
                                                      (Htlcs invoice2)\<rparr>)
                                 now))
                    else Inr (invoice2, settleIndex)) of
                Inl e \<Rightarrow> Inl (e, None)
              | Inr (invoice3, settleIndex') \<Rightarrow>
                 (case serializeInvoice loff invoice3 of
                    Inl e \<Rightarrow> Inl (e, None)
                  | Inr buf \<Rightarrow>
                      Inr (invoice3, kvPut invoiceNum buf invoices, settleIndex')))))"
proof -
  obtain ptrs h0 where a: "allocHtlcs (Htlcs invoice) = (ptrs, h0)"
    by (cases "allocHtlcs (Htlcs invoice)")
  obtain res' h1 where b: "callback (copyInvoice (withHtlcs invoice ptrs)) h0 = (res', h1)"
    by (cases "callback (copyInvoice (withHtlcs invoice ptrs)) h0")
  have r: "res' = res" "withHtlcs invoice (derefHtlcs h1 ptrs) = invoice1"
    using c by (simp_all add: callbackResult_def a b)
  show ?thesis
    unfolding updateInvoice_def f sum.case Let_def a b prod.case r ..
qed


lemma LookupInvoice_InrE:
  assumes "LookupInvoice loff db h = Inr iv"
  obtains invoices idx num where "db = Some invoices"
    and "invoiceIndexBucket invoices = Some idx"
    and "kvGet (be_bytes 32 (unat h)) (entries idx) = Some num"
    and "fetchInvoice loff num (invoiceEntries invoices) = Inr iv"
  using assms by (auto simp: LookupInvoice_def split: option.splits)

lemma UpdateInvoice_found:
  assumes "db = Some invoices" and "invoiceIndexBucket invoices = Some idx"
    and "kvGet (be_bytes 32 (unat h)) (entries idx) = Some num"
  shows "UpdateInvoice loff hashOf now db h callback =
     (case updateInvoice loff hashOf now h (invoiceEntries invoices)
             (createIfNotExists (settleIndexBucket invoices)) num callback of
        Inl (e, i) \<Rightarrow> ((i, Some e), db)
      | Inr (updatedInvoice, entries', settleIndex') \<Rightarrow>
          ((Some updatedInvoice, None),
           Some (invoices\<lparr>invoiceEntries := entries',
                   invoiceIndexBucket := Some idx,
                   settleIndexBucket := Some settleIndex'\<rparr>)))"
  using assms by (simp add: UpdateInvoice_def createIfNotExists_def Let_def split: sum.splits)

lemma applyHtlcUpdates_existing:
  assumes "(key, Some d) \<in> set us" and "map_of (Htlcs iv) key \<noteq> None"
  shows "isl (applyHtlcUpdates pre now us iv)"
  using assms
proof (induction us arbitrary: iv)
  case Nil
  then show ?case by simp
next
  case (Cons u us)
  obtain k x where u: "u = (k, x)" by (cases u)
  show ?case
  proof (cases "k = key")
    case True
    then show ?thesis using Cons.prems Cons.IH u
      by (cases x) (auto simp: update_conv' Let_def split: option.splits)
  next
    case False
    then show ?thesis using Cons.prems Cons.IH u
      by (cases x) (auto simp: update_conv' Let_def split: option.splits)
  qed
qed

lemma applyHtlcUpdates_cancel_resolved:
  assumes "(key, None) \<in> set us" and "map_of (Htlcs iv) key = Some htlc"
    and "State_htlc htlc \<noteq> HtlcStateAccepted"
  shows "isl (applyHtlcUpdates pre now us iv)"
  using assms
proof (induction us arbitrary: iv)
  case Nil
  then show ?case by simp
next
  case (Cons u us)
  obtain k x where u: "u = (k, x)" by (cases u)
  show ?case
  proof (cases "k = key")
    case True
    then show ?thesis using Cons.prems u
      by (cases x) (auto simp: Let_def split: option.splits)
  next
    case False
    then show ?thesis using Cons.prems Cons.IH u
      by (cases x) (auto simp: update_conv' Let_def split: option.splits)
  qed
qed

lemma applyHtlcUpdates_frame:
  assumes "applyHtlcUpdates pre now us iv = Inr iv'"
  shows "Terms iv' = Terms iv \<and> Memo iv' = Memo iv \<and> Receipt iv' = Receipt iv
     \<and> PaymentRequest iv' = PaymentRequest iv \<and> CreationDate iv' = CreationDate iv
     \<and> SettleDate iv' = SettleDate iv \<and> AddIndex iv' = AddIndex iv
     \<and> SettleIndex iv' = SettleIndex iv \<and> FinalCltvDelta iv' = FinalCltvDelta iv
     \<and> Expiry iv' = Expiry iv"
  using assms
proof (induction us arbitrary: iv)
  case Nil
  then show ?case by simp
next
  case (Cons u us)
  obtain k x where u: "u = (k, x)" by (cases u)
  show ?case
  proof (cases x)
    case None
    then obtain htlc where h: "map_of (Htlcs iv) k = Some htlc" "State_htlc htlc = HtlcStateAccepted"
      and r: "applyHtlcUpdates pre now us
             (iv\<lparr>Htlcs := AList.update k (htlc\<lparr>State_htlc := HtlcStateCanceled, ResolveTime := now\<rparr>) (Htlcs iv),
                  AmtPaid := AmtPaid iv - Amt htlc\<rparr>) = Inr iv'"
      using Cons.prems u by (auto split: option.splits if_splits)
    from Cons.IH [OF r] show ?thesis by simp
  next
    case (Some d)
    then have r: "applyHtlcUpdates pre now us
             (iv\<lparr>Htlcs := AList.update k (newHtlc pre now d) (Htlcs iv),
                  AmtPaid := AmtPaid iv + Amt (newHtlc pre now d)\<rparr>) = Inr iv'"
      using Cons.prems u by (auto simp: Let_def newHtlc_def split: option.splits)
    from Cons.IH [OF r] show ?thesis by simp
  qed
qed

lemma updateInvoice_error:
  assumes f: "fetchInvoice loff invoiceNum invoices = Inr invoice"
    and c: "callbackResult callback invoice = (Inr update, invoice1)"
    and bad: "isl (applyHtlcUpdates (State (Terms invoice)) now (Htlcs_upd update)
                 (invoice1\<lparr>Terms := (Terms invoice1)\<lparr>State := State_upd update\<rparr>\<rparr>))
              \<or> (State (Terms invoice) \<noteq> ContractSettled \<and> State_upd update = ContractSettled
                 \<and> hashOf (Preimage update) \<noteq> hash)"
  shows "\<exists>e. updateInvoice loff hashOf now hash invoices settleIndex invoiceNum callback = Inl (e, None)"
proof (cases "applyHtlcUpdates (State (Terms invoice)) now (Htlcs_upd update)
                 (invoice1\<lparr>Terms := (Terms invoice1)\<lparr>State := State_upd update\<rparr>\<rparr>)")
  case (Inl e)
  then show ?thesis by (simp add: updateInvoice_unfold [OF f c])
next
  case (Inr invoice2)
  from applyHtlcUpdates_frame [OF Inr] have t: "State (Terms invoice2) = State_upd update" by simp
  from bad Inr have m: "State (Terms invoice) \<noteq> ContractSettled \<and> State_upd update = ContractSettled
                 \<and> hashOf (Preimage update) \<noteq> hash" by simp
  show ?thesis
    unfolding updateInvoice_unfold [OF f c] sum.case Inr t
    using m by simp
qed

lemma setSettleFields_eq:
  "fst (setSettleFields settleIndex num
          (i\<lparr>Terms := (Terms i)\<lparr>PaymentPreimage := p\<rparr>,
             Htlcs := map (\<lambda>(k, htlc). (k, settleAccepted now htlc)) (Htlcs i)\<rparr>) now)
     = settledInvoice now p (sequence settleIndex + 1) i"
  by (simp add: setSettleFields_def NextSequence_def settledInvoice_def Let_def)

lemma updateInvoice_result:
  assumes f: "fetchInvoice loff num es = Inr invoice"
    and c: "callbackResult callback invoice = (Inr update, invoice1)"
    and a: "applyHtlcUpdates (State (Terms invoice)) now (Htlcs_upd update)
              (invoice1\<lparr>Terms := (Terms invoice1)\<lparr>State := State_upd update\<rparr>\<rparr>) = Inr invoice2"
    and ok: "settles invoice update \<longrightarrow> hashOf (Preimage update) = hash"
    and s: "serializeInvoice loff
              (if settles invoice update
               then settledInvoice now (Preimage update) (sequence settleIndex + 1) invoice2
               else invoice2) = Inr buf"
  shows "\<exists>settleIndex'. updateInvoice loff hashOf now hash es settleIndex num callback =
           Inr (if settles invoice update
                then settledInvoice now (Preimage update) (sequence settleIndex + 1) invoice2
                else invoice2, kvPut num buf es, settleIndex')"
proof -
  from applyHtlcUpdates_frame [OF a] have t: "State (Terms invoice2) = State_upd update" by simp
  show ?thesis
  proof (cases "settles invoice update")
    case True
    then have tr: "State_upd update = ContractSettled" "State (Terms invoice) \<noteq> ContractSettled"
      by (auto simp: settles_def)
    have h: "hashOf (Preimage update) = hash" using ok True by simp
    obtain i3 si where ss: "setSettleFields settleIndex num
          (invoice2\<lparr>Terms := (Terms invoice2)\<lparr>PaymentPreimage := Preimage update\<rparr>,
             Htlcs := map (\<lambda>(k, htlc). (k, settleAccepted now htlc)) (Htlcs invoice2)\<rparr>) now = (i3, si)"
      by (cases "setSettleFields settleIndex num
          (invoice2\<lparr>Terms := (Terms invoice2)\<lparr>PaymentPreimage := Preimage update\<rparr>,
             Htlcs := map (\<lambda>(k, htlc). (k, settleAccepted now htlc)) (Htlcs invoice2)\<rparr>) now")
    have i3: "i3 = settledInvoice now (Preimage update) (sequence settleIndex + 1) invoice2"
      using setSettleFields_eq [where settleIndex = settleIndex and num = num and i = invoice2 and p = "Preimage update" and now = now] ss by simp
    have s3: "serializeInvoice loff i3 = Inr buf" using s True i3 by simp
    show ?thesis
      unfolding updateInvoice_unfold [OF f c] sum.case a t
      using tr h ss s3 True i3 by simp
  next
    case False
    then have ntr: "\<not> (State (Terms invoice) \<noteq> State_upd update \<and> State_upd update = ContractSettled)"
      by (auto simp: settles_def)
    have s2: "serializeInvoice loff invoice2 = Inr buf" using s False by simp
    show ?thesis
      unfolding updateInvoice_unfold [OF f c] sum.case a t
      using ntr s2 False by auto
  qed
qed

lemma updateInvoice_InrD:
  assumes f: "fetchInvoice loff num es = Inr invoice"
    and c: "callbackResult callback invoice = (res, invoice1)"
    and u: "updateInvoice loff hashOf now hash es settleIndex num callback = Inr (iv', es', si')"
  shows "\<exists>update invoice2 buf. res = Inr update
     \<and> applyHtlcUpdates (State (Terms invoice)) now (Htlcs_upd update)
              (invoice1\<lparr>Terms := (Terms invoice1)\<lparr>State := State_upd update\<rparr>\<rparr>) = Inr invoice2
     \<and> (settles invoice update \<longrightarrow> hashOf (Preimage update) = hash)
     \<and> iv' = (if settles invoice update
              then settledInvoice now (Preimage update) (sequence settleIndex + 1) invoice2
              else invoice2)
     \<and> serializeInvoice loff iv' = Inr buf \<and> es' = kvPut num buf es"
proof -
  obtain update where r: "res = Inr update"
    using u by (cases res) (simp_all add: updateInvoice_unfold [OF f c])
  note c' = c [unfolded r]
  obtain invoice2 where a: "applyHtlcUpdates (State (Terms invoice)) now (Htlcs_upd update)
              (invoice1\<lparr>Terms := (Terms invoice1)\<lparr>State := State_upd update\<rparr>\<rparr>) = Inr invoice2"
    using u by (cases "applyHtlcUpdates (State (Terms invoice)) now (Htlcs_upd update)
              (invoice1\<lparr>Terms := (Terms invoice1)\<lparr>State := State_upd update\<rparr>\<rparr>)")
       (simp_all add: updateInvoice_unfold [OF f c'])
  from applyHtlcUpdates_frame [OF a] have t: "State (Terms invoice2) = State_upd update" by simp
  let ?i3 = "if settles invoice update
              then settledInvoice now (Preimage update) (sequence settleIndex + 1) invoice2
              else invoice2"
  have ok: "settles invoice update \<longrightarrow> hashOf (Preimage update) = hash"
  proof
    assume st: "settles invoice update"
    show "hashOf (Preimage update) = hash"
    proof (rule ccontr)
      assume "hashOf (Preimage update) \<noteq> hash"
      then have "\<exists>e. updateInvoice loff hashOf now hash es settleIndex num callback = Inl (e, None)"
        using updateInvoice_error [where hashOf = hashOf and hash = hash and now = now, OF f c'] st
        by (simp add: settles_def)
      then show False using u by auto
    qed
  qed
  obtain buf where s: "serializeInvoice loff ?i3 = Inr buf"
  proof (cases "serializeInvoice loff ?i3")
    case (Inl e)
    have "updateInvoice loff hashOf now hash es settleIndex num callback = Inl (e, None)"
    proof (cases "settles invoice update")
      case True
      then have tr: "State_upd update = ContractSettled" "State (Terms invoice) \<noteq> ContractSettled"
        by (auto simp: settles_def)
      have h: "hashOf (Preimage update) = hash" using ok True by simp
      obtain i3 si where ss: "setSettleFields settleIndex num
          (invoice2\<lparr>Terms := (Terms invoice2)\<lparr>PaymentPreimage := Preimage update\<rparr>,
             Htlcs := map (\<lambda>(k, htlc). (k, settleAccepted now htlc)) (Htlcs invoice2)\<rparr>) now = (i3, si)"
        by (cases "setSettleFields settleIndex num
          (invoice2\<lparr>Terms := (Terms invoice2)\<lparr>PaymentPreimage := Preimage update\<rparr>,
             Htlcs := map (\<lambda>(k, htlc). (k, settleAccepted now htlc)) (Htlcs invoice2)\<rparr>) now")
      have i3: "i3 = settledInvoice now (Preimage update) (sequence settleIndex + 1) invoice2"
        using setSettleFields_eq [where settleIndex = settleIndex and num = num and i = invoice2 and p = "Preimage update" and now = now] ss by simp
      have s3: "serializeInvoice loff i3 = Inl e" using Inl True i3 by simp
      show ?thesis
        unfolding updateInvoice_unfold [OF f c'] sum.case a t
        using tr h ss s3 by simp
    next
      case False
      then have ntr: "\<not> (State (Terms invoice) \<noteq> State_upd update \<and> State_upd update = ContractSettled)"
        by (auto simp: settles_def)
      have s2: "serializeInvoice loff invoice2 = Inl e" using Inl False by simp
      show ?thesis
        unfolding updateInvoice_unfold [OF f c'] sum.case a t
        using ntr s2 by auto
    qed
    then show ?thesis using u by simp
  next
    case (Inr b)
    then show ?thesis using that by blast
  qed
  from updateInvoice_result [where hashOf = hashOf and hash = hash, OF f c' a ok s] u
  have "iv' = ?i3 \<and> es' = kvPut num buf es" by auto
  then show ?thesis using r a ok s by blast
qed

lemma UpdateInvoice_success:
  assumes l: "LookupInvoice loff db h = Inr invoice"
    and c: "callbackResult callback invoice = (Inr update, invoice1)"
    and a: "applyHtlcUpdates (State (Terms invoice)) now (Htlcs_upd update)
              (invoice1\<lparr>Terms := (Terms invoice1)\<lparr>State := State_upd update\<rparr>\<rparr>) = Inr invoice2"
    and ok: "settles invoice update \<longrightarrow> hashOf (Preimage update) = h"
    and s: "serializeInvoice loff
              (if settles invoice update
               then settledInvoice now (Preimage update) (nextSettleIndex db) invoice2
               else invoice2) = Inr buf"
  shows "\<exists>db'. UpdateInvoice loff hashOf now db h callback =
           ((Some (if settles invoice update
                   then settledInvoice now (Preimage update) (nextSettleIndex db) invoice2
                   else invoice2), None), db')
         \<and> LookupInvoice loff db' h = deserializeInvoice loff buf"
proof -
  from l obtain invoices idx num where db: "db = Some invoices"
    and idx: "invoiceIndexBucket invoices = Some idx"
    and num: "kvGet (be_bytes 32 (unat h)) (entries idx) = Some num"
    and f: "fetchInvoice loff num (invoiceEntries invoices) = Inr invoice"
    by (rule LookupInvoice_InrE)
  have n: "nextSettleIndex db = sequence (createIfNotExists (settleIndexBucket invoices)) + 1"
    by (simp add: nextSettleIndex_def invoicesOf_def db)
  from updateInvoice_result [where hashOf = hashOf and hash = h and now = now
      and settleIndex = "createIfNotExists (settleIndexBucket invoices)", OF f c a ok s [unfolded n]]
  obtain si where "updateInvoice loff hashOf now h (invoiceEntries invoices)
      (createIfNotExists (settleIndexBucket invoices)) num callback =
      Inr (if settles invoice update
           then settledInvoice now (Preimage update) (nextSettleIndex db) invoice2
           else invoice2, kvPut num buf (invoiceEntries invoices), si)"
    unfolding n by blast
  then have "UpdateInvoice loff hashOf now db h callback =
      ((Some (if settles invoice update
              then settledInvoice now (Preimage update) (nextSettleIndex db) invoice2
              else invoice2), None),
       Some (invoices\<lparr>invoiceEntries := kvPut num buf (invoiceEntries invoices),
                      invoiceIndexBucket := Some idx, settleIndexBucket := Some si\<rparr>))"
    by (simp add: UpdateInvoice_found [OF db idx num])
  moreover have "LookupInvoice loff
       (Some (invoices\<lparr>invoiceEntries := kvPut num buf (invoiceEntries invoices),
                      invoiceIndexBucket := Some idx, settleIndexBucket := Some si\<rparr>)) h
       = deserializeInvoice loff buf"
    by (simp add: LookupInvoice_def num fetchInvoice_def)
  ultimately show ?thesis by blast
qed

lemma UpdateInvoice_SomeD:
  assumes l: "LookupInvoice loff db h = Inr invoice"
    and c: "callbackResult callback invoice = (res, invoice1)"
    and u: "UpdateInvoice loff hashOf now db h callback = ((r, None), db')"
  shows "\<exists>update invoice2 buf. res = Inr update
     \<and> applyHtlcUpdates (State (Terms invoice)) now (Htlcs_upd update)
              (invoice1\<lparr>Terms := (Terms invoice1)\<lparr>State := State_upd update\<rparr>\<rparr>) = Inr invoice2
     \<and> (settles invoice update \<longrightarrow> hashOf (Preimage update) = h)
     \<and> r = Some (if settles invoice update
              then settledInvoice now (Preimage update) (nextSettleIndex db) invoice2
              else invoice2)
     \<and> serializeInvoice loff (if settles invoice update
              then settledInvoice now (Preimage update) (nextSettleIndex db) invoice2
              else invoice2) = Inr buf
     \<and> LookupInvoice loff db' h = deserializeInvoice loff buf"
proof -
  from l obtain invoices idx num where db: "db = Some invoices"
    and idx: "invoiceIndexBucket invoices = Some idx"
    and num: "kvGet (be_bytes 32 (unat h)) (entries idx) = Some num"
    and f: "fetchInvoice loff num (invoiceEntries invoices) = Inr invoice"
    by (rule LookupInvoice_InrE)
  have n: "nextSettleIndex db = sequence (createIfNotExists (settleIndexBucket invoices)) + 1"
    by (simp add: nextSettleIndex_def invoicesOf_def db)
  obtain iv' es' si' where ui: "updateInvoice loff hashOf now h (invoiceEntries invoices)
      (createIfNotExists (settleIndexBucket invoices)) num callback = Inr (iv', es', si')"
    using u by (cases "updateInvoice loff hashOf now h (invoiceEntries invoices)
      (createIfNotExists (settleIndexBucket invoices)) num callback")
      (auto simp: UpdateInvoice_found [OF db idx num])
  from updateInvoice_InrD [OF f c ui]
  obtain update invoice2 buf where r: "res = Inr update"
    and a: "applyHtlcUpdates (State (Terms invoice)) now (Htlcs_upd update)
              (invoice1\<lparr>Terms := (Terms invoice1)\<lparr>State := State_upd update\<rparr>\<rparr>) = Inr invoice2"
    and ok: "settles invoice update \<longrightarrow> hashOf (Preimage update) = h"
    and s: "serializeInvoice loff
              (if settles invoice update
               then settledInvoice now (Preimage update) (nextSettleIndex db) invoice2
               else invoice2) = Inr buf"
    and i: "iv' = (if settles invoice update
               then settledInvoice now (Preimage update) (nextSettleIndex db) invoice2
               else invoice2)"
    unfolding n by blast
  from UpdateInvoice_success [where hashOf = hashOf and now = now, OF l c [unfolded r] a ok s] u
  have "r = Some (if settles invoice update
               then settledInvoice now (Preimage update) (nextSettleIndex db) invoice2
               else invoice2) \<and> LookupInvoice loff db' h = deserializeInvoice loff buf"
    by auto
  then show ?thesis using r a ok s by blast
qed

lemma applyHtlcUpdates_other:
  assumes "applyHtlcUpdates pre now us iv = Inr iv'" and "key \<notin> fst ` set us"
  shows "map_of (Htlcs iv') key = map_of (Htlcs iv) key"
  using assms
proof (induction us arbitrary: iv)
  case Nil
  then show ?case by simp
next
  case (Cons u us)
  obtain k x where u: "u = (k, x)" by (cases u)
  have ne: "k \<noteq> key" and rest: "key \<notin> fst ` set us" using Cons.prems(2) u by auto
  show ?case
  proof (cases x)
    case None
    then obtain htlc where h: "map_of (Htlcs iv) k = Some htlc"
      and r: "applyHtlcUpdates pre now us
             (iv\<lparr>Htlcs := AList.update k (htlc\<lparr>State_htlc := HtlcStateCanceled, ResolveTime := now\<rparr>) (Htlcs iv),
                  AmtPaid := AmtPaid iv - Amt htlc\<rparr>) = Inr iv'"
      using Cons.prems u by (auto split: option.splits if_splits)
    from Cons.IH [OF r rest] ne show ?thesis by (simp add: update_conv')
  next
    case (Some d)
    then have r: "applyHtlcUpdates pre now us
             (iv\<lparr>Htlcs := AList.update k (newHtlc pre now d) (Htlcs iv),
                  AmtPaid := AmtPaid iv + Amt (newHtlc pre now d)\<rparr>) = Inr iv'"
      using Cons.prems u by (auto simp: Let_def newHtlc_def split: option.splits)
    from Cons.IH [OF r rest] ne show ?thesis by (simp add: update_conv')
  qed
qed

lemma applyHtlcUpdates_added:
  assumes "applyHtlcUpdates pre now us iv = Inr iv'" and "distinct (map fst us)"
    and "(key, Some d) \<in> set us"
  shows "map_of (Htlcs iv') key = Some (newHtlc pre now d)"
  using assms
proof (induction us arbitrary: iv)
  case Nil
  then show ?case by simp
next
  case (Cons u us)
  obtain k x where u: "u = (k, x)" by (cases u)
  have dr: "distinct (map fst us)" and kn: "k \<notin> fst ` set us" using Cons.prems(2) u by auto
  show ?case
  proof (cases "u = (key, Some d)")
    case True
    then have k: "k = key" and x: "x = Some d" using u by auto
    have r: "applyHtlcUpdates pre now us
             (iv\<lparr>Htlcs := AList.update key (newHtlc pre now d) (Htlcs iv),
                  AmtPaid := AmtPaid iv + Amt (newHtlc pre now d)\<rparr>) = Inr iv'"
      using Cons.prems(1) u k x by (auto simp: Let_def newHtlc_def split: option.splits)
    from applyHtlcUpdates_other [OF r] kn k show ?thesis by (simp add: update_conv')
  next
    case False
    then have m: "(key, Some d) \<in> set us" using Cons.prems(3) by auto
    show ?thesis
    proof (cases x)
      case None
      then obtain htlc where h: "map_of (Htlcs iv) k = Some htlc"
        and r: "applyHtlcUpdates pre now us
             (iv\<lparr>Htlcs := AList.update k (htlc\<lparr>State_htlc := HtlcStateCanceled, ResolveTime := now\<rparr>) (Htlcs iv),
                  AmtPaid := AmtPaid iv - Amt htlc\<rparr>) = Inr iv'"
        using Cons.prems u by (auto split: option.splits if_splits)
      from Cons.IH [OF r dr m] show ?thesis .
    next
      case (Some d')
      then have r: "applyHtlcUpdates pre now us
             (iv\<lparr>Htlcs := AList.update k (newHtlc pre now d') (Htlcs iv),
                  AmtPaid := AmtPaid iv + Amt (newHtlc pre now d')\<rparr>) = Inr iv'"
        using Cons.prems u by (auto simp: Let_def newHtlc_def split: option.splits)
      from Cons.IH [OF r dr m] show ?thesis .
    qed
  qed
qed

lemma settleAccepted_newHtlc:
  "settleAccepted now (newHtlc pre now d) = newHtlc ContractSettled now d"
  by (simp add: settleAccepted_def newHtlc_def HtlcStateAccepted_def HtlcStateSettled_def)

lemma map_of_settleAccepted:
  "map_of (map (\<lambda>(k, htlc). (k, settleAccepted now htlc)) hs) key
     = map_option (settleAccepted now) (map_of hs key)"
  by (induction hs) auto

lemma amtCanceled_cong:
  assumes "\<forall>k \<in> fst ` set us. map_of hs k = map_of hs' k"
  shows "amtCanceled hs us = amtCanceled hs' us"
proof -
  have "map (\<lambda>(k, x). case x of None \<Rightarrow> (case map_of hs k of None \<Rightarrow> 0 | Some h \<Rightarrow> Amt h)
                               | Some d \<Rightarrow> 0) us
      = map (\<lambda>(k, x). case x of None \<Rightarrow> (case map_of hs' k of None \<Rightarrow> 0 | Some h \<Rightarrow> Amt h)
                               | Some d \<Rightarrow> 0) us"
    using assms by (auto simp: rev_image_eqI split: option.splits)
  then show ?thesis unfolding amtCanceled_def by (rule arg_cong [where f = sum_list])
qed

lemma applyHtlcUpdates_AmtPaid:
  assumes "applyHtlcUpdates pre now us iv = Inr iv'" and "distinct (map fst us)"
  shows "AmtPaid iv' = AmtPaid iv + amtAdded us - amtCanceled (Htlcs iv) us"
  using assms
proof (induction us arbitrary: iv)
  case Nil
  then show ?case by (simp add: amtAdded_def amtCanceled_def)
next
  case (Cons u us)
  obtain k x where u: "u = (k, x)" by (cases u)
  have dr: "distinct (map fst us)" and kn: "k \<notin> fst ` set us" using Cons.prems(2) u by auto
  have same: "amtCanceled (AList.update k v (Htlcs iv)) us = amtCanceled (Htlcs iv) us" for v
    using kn by (intro amtCanceled_cong) (auto simp: update_conv')
  show ?case
  proof (cases x)
    case None
    then obtain htlc where h: "map_of (Htlcs iv) k = Some htlc"
      and r: "applyHtlcUpdates pre now us
             (iv\<lparr>Htlcs := AList.update k (htlc\<lparr>State_htlc := HtlcStateCanceled, ResolveTime := now\<rparr>) (Htlcs iv),
                  AmtPaid := AmtPaid iv - Amt htlc\<rparr>) = Inr iv'"
      using Cons.prems u by (auto split: option.splits if_splits)
    from Cons.IH [OF r dr] show ?thesis
      by (simp add: same u None h amtAdded_def) (simp add: amtCanceled_def h)
  next
    case (Some d)
    then have r: "applyHtlcUpdates pre now us
             (iv\<lparr>Htlcs := AList.update k (newHtlc pre now d) (Htlcs iv),
                  AmtPaid := AmtPaid iv + Amt (newHtlc pre now d)\<rparr>) = Inr iv'"
      using Cons.prems u by (auto simp: Let_def newHtlc_def split: option.splits)
    from Cons.IH [OF r dr] show ?thesis
      by (simp add: same u Some amtAdded_def) (simp add: amtCanceled_def newHtlc_def)
  qed
qed

section \<open>The examples of updates\<close>

lemma LookupInvoice_AddInvoice:
  assumes v: "validateInvoice i = Inr ()"
    and nd: "\<not> hashStored db h"
    and c: "counterOk db"
    and m1: "marshals loff (CreationDate i)" and m2: "marshals loff (SettleDate i)"
    and d: "distinct (map fst (Htlcs i))"
  shows "LookupInvoice loff (snd (AddInvoice loff db i h)) h
           = Inr (normInvoice loff (i\<lparr>AddIndex := nextAddIndex db\<rparr>))"
proof -
  obtain buf where s: "serializeInvoice loff (i\<lparr>AddIndex := nextAddIndex db\<rparr>) = Inr buf"
    using serializeInvoice_marshals [of loff "i\<lparr>AddIndex := nextAddIndex db\<rparr>"] m1 m2 by auto
  from AddInvoice_success [OF v nd c s]
  have "LookupInvoice loff (snd (AddInvoice loff db i h)) h = deserializeInvoice loff buf"
    by (auto simp: LookupInvoice_def fetchInvoice_def)
  moreover have "deserializeInvoice loff buf = Inr (normInvoice loff (i\<lparr>AddIndex := nextAddIndex db\<rparr>))"
    using v d by (intro deserializeInvoice_serializeInvoice [OF s]) (simp_all add: validateInvoice_Inr)
  ultimately show ?thesis by simp
qed

lemma UpdateInvoice_stored:
  assumes l: "LookupInvoice loff db h = Inr invoice"
    and c: "callbackResult callback invoice = (Inr update, invoice1)"
    and a: "applyHtlcUpdates (State (Terms invoice)) now (Htlcs_upd update)
              (invoice1\<lparr>Terms := (Terms invoice1)\<lparr>State := State_upd update\<rparr>\<rparr>) = Inr invoice2"
    and ok: "settles invoice update \<longrightarrow> hashOf (Preimage update) = h"
    and fin: "final = (if settles invoice update
               then settledInvoice now (Preimage update) (nextSettleIndex db) invoice2
               else invoice2)"
    and m1: "marshals loff (CreationDate final)" and m2: "marshals loff (SettleDate final)"
    and v: "validateInvoice final = Inr ()"
    and d: "distinct (map fst (Htlcs final))"
  shows "fst (UpdateInvoice loff hashOf now db h callback) = (Some final, None)
       \<and> LookupInvoice loff (snd (UpdateInvoice loff hashOf now db h callback)) h
           = Inr (normInvoice loff final)"
proof -
  obtain buf where s: "serializeInvoice loff final = Inr buf"
    using serializeInvoice_marshals [OF m1 m2] by auto
  from UpdateInvoice_success [where hashOf = hashOf and now = now, OF l c a ok s [unfolded fin]]
  obtain db' where u: "UpdateInvoice loff hashOf now db h callback = ((Some final, None), db')"
    and lk: "LookupInvoice loff db' h = deserializeInvoice loff buf"
    unfolding fin by blast
  have "deserializeInvoice loff buf = Inr (normInvoice loff final)"
    using v d by (intro deserializeInvoice_serializeInvoice [OF s]) (simp_all add: validateInvoice_Inr)
  then show ?thesis using u lk by simp
qed

lemma callbackResult_cbReturn: "callbackResult (cbReturn update) invoice = (Inr update, invoice)"
proof -
  have "readOnly (cbReturn update)" by (simp add: readOnly_def cbReturn_def)
  from callbackResult_readOnly [OF this, of invoice]
  show ?thesis
    by (simp add: callbackResult_def cbReturn_def case_prod_unfold Let_def)
qed

lemma validateInvoice_invoice0: "validateInvoice invoice0 = Inr ()"
  by (simp add: validateInvoice_Inr invoice0_def MaxMemoSize_def MaxReceiptSize_def
      MaxPaymentRequestSize_def)

lemma LookupInvoice_db1: "LookupInvoice loff0 db1 paymentHash0 = Inr (invoice0\<lparr>AddIndex := 1\<rparr>)"
proof -
  have e: "\<not> hashStored None paymentHash0" "counterOk None" "nextAddIndex None = 1"
    by (simp_all add: hashStored_def counterOk_def nextAddIndex_def addSequence_def invoicesOf_def
        emptyInvoices_def createIfNotExists_def emptyBucket_def kvGet_def)
  have m: "marshals loff0 (CreationDate invoice0)" "marshals loff0 (SettleDate invoice0)"
    by (simp_all add: invoice0_def marshals_Unix0_loff0 marshals_zeroTime)
  have d: "distinct (map fst (Htlcs invoice0))" by (simp add: invoice0_def)
  have n: "normInvoice loff0 (invoice0\<lparr>AddIndex := 1\<rparr>) = invoice0\<lparr>AddIndex := 1\<rparr>"
    by (rule normInvoice_storable)
       (simp_all add: invoice0_def storableDate_Unix0_loff0 storableDate_zeroTime)
  from LookupInvoice_AddInvoice [OF validateInvoice_invoice0 e(1) e(2) m d]
  show ?thesis by (simp add: db1_def e(3) n)
qed

lemma nextSettleIndex_db1: "nextSettleIndex db1 = 1"
proof -
  have e: "\<not> hashStored None paymentHash0" "counterOk None"
    by (simp_all add: hashStored_def counterOk_def invoicesOf_def
        emptyInvoices_def createIfNotExists_def emptyBucket_def kvGet_def)
  have m: "marshals loff0 (CreationDate invoice0)" "marshals loff0 (SettleDate invoice0)"
    by (simp_all add: invoice0_def marshals_Unix0_loff0 marshals_zeroTime)
  from AddInvoice_success_marshals [OF validateInvoice_invoice0 e m]
  have "settleIndexBucket (invoicesOf db1) = settleIndexBucket (invoicesOf None)"
    by (auto simp: db1_def)
  then show ?thesis
    by (simp add: nextSettleIndex_def invoicesOf_def emptyInvoices_def createIfNotExists_def
        emptyBucket_def)
qed

lemma UpdateInvoice_db1_accept:
  "fst (UpdateInvoice loff0 exampleHash (Unix0 1000) db1 paymentHash0 (cbReturn updAccept))
     = (Some (invoice0\<lparr>AddIndex := 1,
              Terms := \<lparr> PaymentPreimage = 0, Value = 1000000, State = ContractAccepted \<rparr>,
              AmtPaid := 1000000, Htlcs := [(key1, htlcAccepted)]\<rparr>), None)
   \<and> LookupInvoice loff0 db2 paymentHash0 = Inr invoiceAccepted"
proof -
  let ?final = "invoice0\<lparr>AddIndex := 1,
              Terms := \<lparr> PaymentPreimage = 0, Value = 1000000, State = ContractAccepted \<rparr>,
              AmtPaid := 1000000, Htlcs := [(key1, htlcAccepted)]\<rparr>"
  have a: "applyHtlcUpdates (State (Terms (invoice0\<lparr>AddIndex := 1\<rparr>))) (Unix0 1000) (Htlcs_upd updAccept)
             ((invoice0\<lparr>AddIndex := 1\<rparr>)\<lparr>Terms := (Terms (invoice0\<lparr>AddIndex := 1\<rparr>))\<lparr>State := State_upd updAccept\<rparr>\<rparr>)
           = Inr ?final"
    by (simp add: updAccept_def invoice0_def acceptDesc_def htlcAccepted_def
        ContractOpen_def ContractSettled_def ContractAccepted_def)
  have ns: "\<not> settles (invoice0\<lparr>AddIndex := 1\<rparr>) updAccept"
    by (simp add: settles_def updAccept_def ContractSettled_def ContractAccepted_def)
  have n: "normInvoice loff0 ?final = invoiceAccepted"
    by (simp add: normInvoice_def invoiceAccepted_def invoice0_def normDate_storable
        storableDate_Unix0_loff0 storableDate_zeroTime normHtlc_def htlcAccepted_def UnixNano_Unix0)
  from UpdateInvoice_stored [where hashOf = exampleHash and now = "Unix0 1000" and final = ?final,
      OF LookupInvoice_db1 callbackResult_cbReturn a]
  show ?thesis
    using ns
    by (simp add: n db2_def validateInvoice_Inr)
       (simp add: invoice0_def marshals_Unix0_loff0 marshals_zeroTime MaxMemoSize_def
        MaxReceiptSize_def MaxPaymentRequestSize_def)
qed

lemma validate_examples:
  "validateInvoice (invoice0\<lparr>AddIndex := a, Terms := t, AmtPaid := p, Htlcs := hs\<rparr>) = Inr ()"
  "validateInvoice (invoice0\<lparr>AddIndex := a, Terms := t, AmtPaid := p, SettleDate := sd,
      SettleIndex := si, Htlcs := hs\<rparr>) = Inr ()"
  by (simp_all add: validateInvoice_Inr invoice0_def MaxMemoSize_def MaxReceiptSize_def
      MaxPaymentRequestSize_def)

lemma UpdateInvoice_db2_cancel:
  "LookupInvoice loff0 db3 paymentHash0 = Inr invoiceCanceledHtlc"
proof -
  have a: "applyHtlcUpdates (State (Terms invoiceAccepted)) (Unix0 2000) (Htlcs_upd updCancel)
             (invoiceAccepted\<lparr>Terms := (Terms invoiceAccepted)\<lparr>State := State_upd updCancel\<rparr>\<rparr>)
           = Inr invoiceCanceledHtlc"
    by (simp add: updCancel_def invoiceAccepted_def invoiceCanceledHtlc_def invoice0_def
        htlcAccepted_def HtlcStateAccepted_def)
  have ns: "\<not> settles invoiceAccepted updCancel"
    by (simp add: settles_def updCancel_def ContractSettled_def ContractAccepted_def)
  have n: "normInvoice loff0 invoiceCanceledHtlc = invoiceCanceledHtlc"
    by (rule normInvoice_storable)
       (simp_all add: invoiceCanceledHtlc_def invoice0_def storableDate_Unix0_loff0
        storableDate_zeroTime storableHtlc_def htlcAccepted_def nanoTime_Unix0)
  have l: "LookupInvoice loff0 db2 paymentHash0 = Inr invoiceAccepted"
    using UpdateInvoice_db1_accept by simp
  from UpdateInvoice_stored [where hashOf = exampleHash and now = "Unix0 2000"
      and final = invoiceCanceledHtlc, OF l callbackResult_cbReturn a]
  show ?thesis
    using ns
    by (simp add: n db3_def)
       (simp add: invoiceCanceledHtlc_def validate_examples,
        simp add: invoice0_def marshals_Unix0_loff0 marshals_zeroTime)
qed

lemma UpdateInvoice_db1_settle:
  "fst (UpdateInvoice loff0 exampleHash (Unix0 2000) db1 paymentHash0 (cbReturn updSettle))
     = (Some invoiceSettled, None)"
proof -
  let ?i2 = "invoice0\<lparr>AddIndex := 1,
              Terms := \<lparr> PaymentPreimage = 0, Value = 1000000, State = ContractSettled \<rparr>,
              AmtPaid := 1000000, Htlcs := [(key1, htlcAccepted\<lparr>AcceptTime := Unix0 2000\<rparr>)]\<rparr>"
  have a: "applyHtlcUpdates (State (Terms (invoice0\<lparr>AddIndex := 1\<rparr>))) (Unix0 2000) (Htlcs_upd updSettle)
             ((invoice0\<lparr>AddIndex := 1\<rparr>)\<lparr>Terms := (Terms (invoice0\<lparr>AddIndex := 1\<rparr>))\<lparr>State := State_upd updSettle\<rparr>\<rparr>)
           = Inr ?i2"
    by (simp add: updSettle_def invoice0_def acceptDesc_def htlcAccepted_def
        ContractOpen_def ContractSettled_def)
  have st: "settles (invoice0\<lparr>AddIndex := 1\<rparr>) updSettle"
    by (simp add: settles_def updSettle_def invoice0_def ContractSettled_def ContractOpen_def)
  have h: "exampleHash (Preimage updSettle) = paymentHash0"
    by (simp add: exampleHash_def updSettle_def preimage0_def paymentHash0_def)
  have f: "settledInvoice (Unix0 2000) (Preimage updSettle) (nextSettleIndex db1) ?i2 = invoiceSettled"
    by (simp add: settledInvoice_def nextSettleIndex_db1 invoiceSettled_def invoice0_def
        updSettle_def settleAccepted_def htlcAccepted_def htlcSettled_def)
  from UpdateInvoice_stored [where hashOf = exampleHash and now = "Unix0 2000"
      and final = invoiceSettled, OF LookupInvoice_db1 callbackResult_cbReturn a]
  show ?thesis
    using st h f
    by simp
       (simp add: invoiceSettled_def validate_examples,
        simp add: invoice0_def marshals_Unix0_loff0 marshals_zeroTime)
qed


lemma LookupInvoice_dbSettled: "LookupInvoice loff0 dbSettled paymentHash0 = Inr invoiceSettled"
proof -
  let ?i2 = "invoice0\<lparr>AddIndex := 1,
              Terms := \<lparr> PaymentPreimage = 0, Value = 1000000, State = ContractSettled \<rparr>,
              AmtPaid := 1000000, Htlcs := [(key1, htlcAccepted\<lparr>AcceptTime := Unix0 2000\<rparr>)]\<rparr>"
  have a: "applyHtlcUpdates (State (Terms (invoice0\<lparr>AddIndex := 1\<rparr>))) (Unix0 2000) (Htlcs_upd updSettle)
             ((invoice0\<lparr>AddIndex := 1\<rparr>)\<lparr>Terms := (Terms (invoice0\<lparr>AddIndex := 1\<rparr>))\<lparr>State := State_upd updSettle\<rparr>\<rparr>)
           = Inr ?i2"
    by (simp add: updSettle_def invoice0_def acceptDesc_def htlcAccepted_def
        ContractOpen_def ContractSettled_def)
  have st: "settles (invoice0\<lparr>AddIndex := 1\<rparr>) updSettle"
    by (simp add: settles_def updSettle_def invoice0_def ContractSettled_def ContractOpen_def)
  have h: "exampleHash (Preimage updSettle) = paymentHash0"
    by (simp add: exampleHash_def updSettle_def preimage0_def paymentHash0_def)
  have f: "settledInvoice (Unix0 2000) (Preimage updSettle) (nextSettleIndex db1) ?i2 = invoiceSettled"
    by (simp add: settledInvoice_def nextSettleIndex_db1 invoiceSettled_def invoice0_def
        updSettle_def settleAccepted_def htlcAccepted_def htlcSettled_def)
  have n: "normInvoice loff0 invoiceSettled = invoiceSettled"
    by (rule normInvoice_storable)
       (simp_all add: invoiceSettled_def invoice0_def storableDate_Unix0_loff0
        storableDate_zeroTime storableHtlc_def htlcSettled_def nanoTime_Unix0)
  from UpdateInvoice_stored [where hashOf = exampleHash and now = "Unix0 2000"
      and final = invoiceSettled, OF LookupInvoice_db1 callbackResult_cbReturn a]
  show ?thesis
    using st h f
    by (simp add: n dbSettled_def)
       (simp add: invoiceSettled_def validate_examples,
        simp add: invoice0_def marshals_Unix0_loff0 marshals_zeroTime)
qed

lemma UpdateInvoice_dbSettled_late:
  "fst (UpdateInvoice loff0 exampleHash (Unix0 3000) dbSettled paymentHash0 (cbReturn updLate))
     = (Some invoiceLate, None)"
proof -
  have a: "applyHtlcUpdates (State (Terms invoiceSettled)) (Unix0 3000) (Htlcs_upd updLate)
             (invoiceSettled\<lparr>Terms := (Terms invoiceSettled)\<lparr>State := State_upd updLate\<rparr>\<rparr>)
           = Inr invoiceLate"
    by (simp add: updLate_def invoiceSettled_def invoiceLate_def invoice0_def acceptDesc_def
        htlcSettled_def key1_def key2_def)
  have ns: "\<not> settles invoiceSettled updLate"
    by (simp add: settles_def invoiceSettled_def)
  have ok: "settles invoiceSettled updLate \<longrightarrow> exampleHash (Preimage updLate) = paymentHash0"
    using ns by simp
  have fin: "invoiceLate = (if settles invoiceSettled updLate
               then settledInvoice (Unix0 3000) (Preimage updLate) (nextSettleIndex dbSettled) invoiceLate
               else invoiceLate)"
    using ns by simp
  have m: "marshals loff0 (CreationDate invoiceLate)" "marshals loff0 (SettleDate invoiceLate)"
    by (simp_all add: invoiceLate_def invoiceSettled_def invoice0_def marshals_Unix0_loff0)
  have v: "validateInvoice invoiceLate = Inr ()"
    by (simp add: validateInvoice_Inr invoiceLate_def invoiceSettled_def invoice0_def
        MaxMemoSize_def MaxReceiptSize_def MaxPaymentRequestSize_def)
  have d: "distinct (map fst (Htlcs invoiceLate))"
    by (simp add: invoiceLate_def key1_def key2_def)
  from UpdateInvoice_stored [where hashOf = exampleHash, OF LookupInvoice_dbSettled
      callbackResult_cbReturn a ok fin m v d]
  show ?thesis by simp
qed

lemma LookupInvoice_db2: "LookupInvoice loff0 db2 paymentHash0 = Inr invoiceAccepted"
  using UpdateInvoice_db1_accept by simp

lemma callbackResult_cbMut:
  "callbackResult cbMut invoiceAccepted = (Inr updNothing, invoiceMutated)"
  by (simp add: callbackResult_def cbMut_def allocHtlcs_def derefHtlcs_def copyInvoice_def
      withHtlcs_def invoiceAccepted_def invoiceMutated_def invoice0_def Let_def)

lemma storable_invoiceAccepted:
  "marshals loff0 (CreationDate (invoiceAccepted\<lparr>Htlcs := hs\<rparr>))"
  "marshals loff0 (SettleDate (invoiceAccepted\<lparr>Htlcs := hs\<rparr>))"
  "validateInvoice (invoiceAccepted\<lparr>Htlcs := hs\<rparr>) = Inr ()"
  by (simp_all add: invoiceAccepted_def invoice0_def marshals_Unix0_loff0 marshals_zeroTime
      validateInvoice_Inr MaxMemoSize_def MaxReceiptSize_def MaxPaymentRequestSize_def)

lemma normInvoice_invoiceAccepted:
  "normInvoice loff0 invoiceAccepted = invoiceAccepted"
  "normInvoice loff0 invoiceMutated = invoiceMutated"
  by (rule normInvoice_storable,
      simp_all add: invoiceAccepted_def invoiceMutated_def invoice0_def storableDate_Unix0_loff0
        storableDate_zeroTime storableHtlc_def htlcAccepted_def nanoTime_Unix0)+

lemma UpdateInvoice_db2_nothing:
  "fst (UpdateInvoice loff0 exampleHash (Unix0 3000) db2 paymentHash0 (cbReturn updNothing))
     = (Some invoiceAccepted, None)
   \<and> LookupInvoice loff0
        (snd (UpdateInvoice loff0 exampleHash (Unix0 3000) db2 paymentHash0 (cbReturn updNothing)))
        paymentHash0 = Inr invoiceAccepted"
proof -
  have a: "applyHtlcUpdates (State (Terms invoiceAccepted)) (Unix0 3000) (Htlcs_upd updNothing)
             (invoiceAccepted\<lparr>Terms := (Terms invoiceAccepted)\<lparr>State := State_upd updNothing\<rparr>\<rparr>)
           = Inr invoiceAccepted"
    by (simp add: updNothing_def invoiceAccepted_def)
  have ns: "\<not> settles invoiceAccepted updNothing"
    by (simp add: settles_def updNothing_def ContractSettled_def ContractAccepted_def)
  have ok: "settles invoiceAccepted updNothing \<longrightarrow> exampleHash (Preimage updNothing) = paymentHash0"
    using ns by simp
  have fin: "invoiceAccepted = (if settles invoiceAccepted updNothing
               then settledInvoice (Unix0 3000) (Preimage updNothing) (nextSettleIndex db2) invoiceAccepted
               else invoiceAccepted)"
    using ns by simp
  have d: "distinct (map fst (Htlcs invoiceAccepted))" by (simp add: invoiceAccepted_def)
  from UpdateInvoice_stored [where hashOf = exampleHash, OF LookupInvoice_db2
      callbackResult_cbReturn a ok fin storable_invoiceAccepted [of "Htlcs invoiceAccepted", simplified] d]
  show ?thesis by (simp add: normInvoice_invoiceAccepted)
qed

lemma UpdateInvoice_db2_cbMut:
  "fst (UpdateInvoice loff0 exampleHash (Unix0 3000) db2 paymentHash0 cbMut)
     = (Some invoiceMutated, None)
   \<and> LookupInvoice loff0
        (snd (UpdateInvoice loff0 exampleHash (Unix0 3000) db2 paymentHash0 cbMut))
        paymentHash0 = Inr invoiceMutated"
proof -
  have a: "applyHtlcUpdates (State (Terms invoiceAccepted)) (Unix0 3000) (Htlcs_upd updNothing)
             (invoiceMutated\<lparr>Terms := (Terms invoiceMutated)\<lparr>State := State_upd updNothing\<rparr>\<rparr>)
           = Inr invoiceMutated"
    by (simp add: updNothing_def invoiceMutated_def invoiceAccepted_def)
  have ns: "\<not> settles invoiceAccepted updNothing"
    by (simp add: settles_def updNothing_def ContractSettled_def ContractAccepted_def)
  have ok: "settles invoiceAccepted updNothing \<longrightarrow> exampleHash (Preimage updNothing) = paymentHash0"
    using ns by simp
  have fin: "invoiceMutated = (if settles invoiceAccepted updNothing
               then settledInvoice (Unix0 3000) (Preimage updNothing) (nextSettleIndex db2) invoiceMutated
               else invoiceMutated)"
    using ns by simp
  have d: "distinct (map fst (Htlcs invoiceMutated))" by (simp add: invoiceMutated_def)
  have st: "marshals loff0 (CreationDate invoiceMutated)" "marshals loff0 (SettleDate invoiceMutated)"
    "validateInvoice invoiceMutated = Inr ()"
    unfolding invoiceMutated_def by (rule storable_invoiceAccepted)+
  from UpdateInvoice_stored [where hashOf = exampleHash, OF LookupInvoice_db2
      callbackResult_cbMut a ok fin st d]
  show ?thesis by (simp add: normInvoice_invoiceAccepted)
qed

lemma AddInvoice_None_invoice0:
  "fst (AddInvoice loff0 None invoice0 paymentHash0) = Inr (1, invoice0\<lparr>AddIndex := 1\<rparr>)"
proof -
  have e: "\<not> hashStored None paymentHash0" "counterOk None" "nextAddIndex None = 1"
    by (simp_all add: hashStored_def counterOk_def nextAddIndex_def addSequence_def invoicesOf_def
        emptyInvoices_def createIfNotExists_def emptyBucket_def kvGet_def)
  have m: "marshals loff0 (CreationDate invoice0)" "marshals loff0 (SettleDate invoice0)"
    by (simp_all add: invoice0_def marshals_Unix0_loff0 marshals_zeroTime)
  from AddInvoice_success_marshals [OF validateInvoice_invoice0 e(1) e(2) m]
  show ?thesis by (auto simp: e(3))
qed

lemma runOps_db2:
  "runOps loff0 exampleHash
     [OpAdd invoice0 paymentHash0, OpUpdate paymentHash0 (cbReturn updAccept) (Unix0 1000)] = db2"
  by (simp add: runOps_def db2_def db1_def)

section \<open>Facts about the paid amount\<close>

lemma sum_counted_update:
  "sum_list (map (\<lambda>(k, h). countedAmt h) (AList.update key v hs))
     = sum_list (map (\<lambda>(k, h). countedAmt h) hs) + countedAmt v
       - (case map_of hs key of None \<Rightarrow> 0 | Some old \<Rightarrow> countedAmt old)"
  by (induction hs) auto

lemma sum_counted_map:
  assumes "\<And>h. countedAmt (f h) = countedAmt h"
  shows "sum_list (map (\<lambda>(k, h). countedAmt h) (map (\<lambda>(k, h). (k, f h)) hs))
     = sum_list (map (\<lambda>(k, h). countedAmt h) hs)"
  by (induction hs) (auto simp: assms)

lemma countedAmt_settleAccepted: "countedAmt (settleAccepted now h) = countedAmt h"
  by (simp add: countedAmt_def settleAccepted_def HtlcStateAccepted_def HtlcStateSettled_def
      HtlcStateCanceled_def)

lemma countedAmt_normHtlc: "countedAmt (normHtlc h) = countedAmt h"
  by (simp add: countedAmt_def normHtlc_def)

lemma keys_map_snd: "map fst (map (\<lambda>(k, h). (k, f h)) hs) = map fst hs"
  by (induction hs) auto

lemma applyHtlcUpdates_paid:
  assumes "applyHtlcUpdates pre now us iv = Inr iv'"
    and "AmtPaid iv = amtNotCanceled iv" and "distinct (map fst (Htlcs iv))"
  shows "AmtPaid iv' = amtNotCanceled iv' \<and> distinct (map fst (Htlcs iv'))"
  using assms
proof (induction us arbitrary: iv)
  case Nil
  then show ?case by simp
next
  case (Cons u us)
  obtain k x where u: "u = (k, x)" by (cases u)
  show ?case
  proof (cases x)
    case None
    then obtain htlc where h: "map_of (Htlcs iv) k = Some htlc"
      and acc: "State_htlc htlc = HtlcStateAccepted"
      and r: "applyHtlcUpdates pre now us
             (iv\<lparr>Htlcs := AList.update k (htlc\<lparr>State_htlc := HtlcStateCanceled, ResolveTime := now\<rparr>) (Htlcs iv),
                  AmtPaid := AmtPaid iv - Amt htlc\<rparr>) = Inr iv'"
      using Cons.prems u by (auto split: option.splits if_splits)
    have c0: "countedAmt (htlc\<lparr>State_htlc := HtlcStateCanceled, ResolveTime := now\<rparr>) = 0"
      by (simp add: countedAmt_def)
    have c1: "countedAmt htlc = Amt htlc"
      using acc by (simp add: countedAmt_def HtlcStateAccepted_def HtlcStateCanceled_def)
    show ?thesis
      by (rule Cons.IH [OF r])
         (simp_all add: amtNotCanceled_def sum_counted_update h c0 c1 distinct_update
            Cons.prems(2) [unfolded amtNotCanceled_def] Cons.prems(3))
  next
    case (Some d)
    then have n: "map_of (Htlcs iv) k = None"
      and r: "applyHtlcUpdates pre now us
             (iv\<lparr>Htlcs := AList.update k (newHtlc pre now d) (Htlcs iv),
                  AmtPaid := AmtPaid iv + Amt (newHtlc pre now d)\<rparr>) = Inr iv'"
      using Cons.prems u by (auto simp: Let_def newHtlc_def split: option.splits)
    have c1: "countedAmt (newHtlc pre now d) = Amt (newHtlc pre now d)"
      by (simp add: countedAmt_def newHtlc_def HtlcStateAccepted_def HtlcStateSettled_def
          HtlcStateCanceled_def)
    show ?thesis
      by (rule Cons.IH [OF r])
         (simp_all add: amtNotCanceled_def sum_counted_update n c1 distinct_update
            Cons.prems(2) [unfolded amtNotCanceled_def] Cons.prems(3))
  qed
qed

lemma settledInvoice_paid:
  assumes "AmtPaid i = amtNotCanceled i" and "distinct (map fst (Htlcs i))"
  shows "AmtPaid (settledInvoice now p n i) = amtNotCanceled (settledInvoice now p n i)
       \<and> distinct (map fst (Htlcs (settledInvoice now p n i)))"
  using assms
  by (simp add: settledInvoice_def amtNotCanceled_def sum_counted_map countedAmt_settleAccepted
      keys_map_snd del: map_map)

lemma normInvoice_paid:
  assumes "AmtPaid i = amtNotCanceled i" and "distinct (map fst (Htlcs i))"
  shows "AmtPaid (normInvoice loff i) = amtNotCanceled (normInvoice loff i)
       \<and> distinct (map fst (Htlcs (normInvoice loff i)))"
  using assms
  by (simp add: normInvoice_def amtNotCanceled_def sum_counted_map countedAmt_normHtlc
      keys_map_snd del: map_map)

lemma validateInvoice_cong:
  assumes "Memo i' = Memo i" and "Receipt i' = Receipt i" and "PaymentRequest i' = PaymentRequest i"
  shows "validateInvoice i' = validateInvoice i"
  using assms by (simp add: validateInvoice_def)

lemma kvPut_set: "set (kvPut k v es) \<subseteq> insert (k, v) (set es)"
  by (induction es) (auto split: if_splits)

lemma kvGet_mem: "kvGet k es = Some v \<Longrightarrow> (k, v) \<in> set es"
  by (simp add: kvGet_def map_of_SomeD)

lemma AddInvoice_entries:
  "snd (AddInvoice loff db i h) = db
   \<or> (validateInvoice i = Inr ()
      \<and> (\<exists>key buf n. serializeInvoice loff (i\<lparr>AddIndex := n\<rparr>) = Inr buf
            \<and> invoiceEntries (invoicesOf (snd (AddInvoice loff db i h)))
                = kvPut key buf (invoiceEntries (invoicesOf db))))"
proof (cases "validateInvoice i")
  case (Inl e)
  then show ?thesis by (simp add: AddInvoice_def)
next
  case (Inr u)
  show ?thesis
  proof (cases "serializeInvoice loff (i\<lparr>AddIndex := nextAddIndex db\<rparr>)")
    case (Inl e)
    then have "snd (AddInvoice loff db i h) = db"
      using Inr
      by (auto simp: AddInvoice_def putInvoice_def Let_def NextSequence_def nextAddIndex_def
          addSequence_def invoicesOf_def bucketPut_def split: option.splits)
    then show ?thesis by simp
  next
    case s: (Inr buf)
    have "snd (AddInvoice loff db i h) = db
      \<or> (\<exists>key. invoiceEntries (invoicesOf (snd (AddInvoice loff db i h)))
                = kvPut key buf (invoiceEntries (invoicesOf db)))"
      using Inr s
      by (auto simp: AddInvoice_def putInvoice_def Let_def NextSequence_def nextAddIndex_def
          addSequence_def invoicesOf_def bucketPut_def split: option.splits)
    then show ?thesis using Inr s by auto
  qed
qed

lemma updateInvoice_fetch:
  assumes "updateInvoice loff hashOf now hash es settleIndex num callback = Inr r"
  shows "\<exists>invoice. fetchInvoice loff num es = Inr invoice"
  using assms by (cases "fetchInvoice loff num es") (simp_all add: updateInvoice_def)

lemma UpdateInvoice_entries:
  "snd (UpdateInvoice loff hashOf now db h callback) = db
   \<or> (\<exists>num invoice update invoice2 buf.
        fetchInvoice loff num (invoiceEntries (invoicesOf db)) = Inr invoice
      \<and> fst (callbackResult callback invoice) = Inr update
      \<and> applyHtlcUpdates (State (Terms invoice)) now (Htlcs_upd update)
           ((snd (callbackResult callback invoice))
              \<lparr>Terms := (Terms (snd (callbackResult callback invoice)))\<lparr>State := State_upd update\<rparr>\<rparr>)
           = Inr invoice2
      \<and> serializeInvoice loff
           (if settles invoice update
            then settledInvoice now (Preimage update) (nextSettleIndex db) invoice2
            else invoice2) = Inr buf
      \<and> invoiceEntries (invoicesOf (snd (UpdateInvoice loff hashOf now db h callback)))
           = kvPut num buf (invoiceEntries (invoicesOf db)))"
proof (cases "kvGet (be_bytes 32 (unat h)) (entries (createIfNotExists (invoiceIndexBucket (invoicesOf db))))")
  case None
  then show ?thesis by (simp add: UpdateInvoice_def invoicesOf_def Let_def)
next
  case (Some num)
  show ?thesis
  proof (cases "updateInvoice loff hashOf now h (invoiceEntries (invoicesOf db))
                  (createIfNotExists (settleIndexBucket (invoicesOf db))) num callback")
    case (Inl e)
    then show ?thesis using Some
      by (auto simp: UpdateInvoice_def invoicesOf_def Let_def split: prod.splits)
  next
    case (Inr r)
    obtain iv' es' si' where r: "r = (iv', es', si')" by (cases r)
    from updateInvoice_fetch [OF Inr] obtain invoice
      where f: "fetchInvoice loff num (invoiceEntries (invoicesOf db)) = Inr invoice" by blast
    obtain res invoice1 where c: "callbackResult callback invoice = (res, invoice1)"
      by (cases "callbackResult callback invoice")
    from updateInvoice_InrD [OF f c Inr [unfolded r]]
    obtain update invoice2 buf where res: "res = Inr update"
      and a: "applyHtlcUpdates (State (Terms invoice)) now (Htlcs_upd update)
              (invoice1\<lparr>Terms := (Terms invoice1)\<lparr>State := State_upd update\<rparr>\<rparr>) = Inr invoice2"
      and i: "iv' = (if settles invoice update
              then settledInvoice now (Preimage update)
                     (sequence (createIfNotExists (settleIndexBucket (invoicesOf db))) + 1) invoice2
              else invoice2)"
      and s: "serializeInvoice loff iv' = Inr buf"
      and e: "es' = kvPut num buf (invoiceEntries (invoicesOf db))"
      by blast
    have g1: "invoiceEntries (invoicesOf (snd (UpdateInvoice loff hashOf now db h callback)))
           = kvPut num buf (invoiceEntries (invoicesOf db))"
      using Some Inr r e by (simp add: UpdateInvoice_def invoicesOf_def Let_def)
    have g2: "serializeInvoice loff
           (if settles invoice update
            then settledInvoice now (Preimage update) (nextSettleIndex db) invoice2
            else invoice2) = Inr buf"
      unfolding nextSettleIndex_def by (rule s [unfolded i])
    have g3: "fst (callbackResult callback invoice) = Inr update" using c res by simp
    have g4: "applyHtlcUpdates (State (Terms invoice)) now (Htlcs_upd update)
           ((snd (callbackResult callback invoice))
              \<lparr>Terms := (Terms (snd (callbackResult callback invoice)))\<lparr>State := State_upd update\<rparr>\<rparr>)
           = Inr invoice2"
      using a c by simp
    show ?thesis
      by (intro disjI2 exI [of _ num] exI [of _ invoice] exI [of _ update] exI [of _ invoice2]
          exI [of _ buf] conjI f g1 g2 g3 g4)
  qed
qed

lemma paidStore_fetch:
  assumes p: "paidStore loff db"
    and f: "fetchInvoice loff num (invoiceEntries (invoicesOf db)) = Inr invoice"
  shows "AmtPaid invoice = amtNotCanceled invoice \<and> distinct (map fst (Htlcs invoice))
       \<and> validateInvoice invoice = Inr ()"
proof -
  from f obtain bytes where g: "kvGet num (invoiceEntries (invoicesOf db)) = Some bytes"
    and d: "deserializeInvoice loff bytes = Inr invoice"
    by (auto simp: fetchInvoice_def split: option.splits)
  from kvGet_mem [OF g] p obtain i where s: "serializeInvoice loff i = Inr bytes"
    and v: "validateInvoice i = Inr ()" and dk: "distinct (map fst (Htlcs i))"
    and pa: "AmtPaid i = amtNotCanceled i"
    by (auto simp: paidStore_def)
  have "deserializeInvoice loff bytes = Inr (normInvoice loff i)"
    using v dk by (intro deserializeInvoice_serializeInvoice [OF s]) (simp_all add: validateInvoice_Inr)
  then have e: "invoice = normInvoice loff i" using d by simp
  have "validateInvoice (normInvoice loff i) = validateInvoice i"
    by (rule validateInvoice_cong) (simp_all add: normInvoice_def)
  then show ?thesis using normInvoice_paid [OF pa dk, of loff] v e by simp
qed

lemma paidStore_put:
  assumes p: "paidStore loff db"
    and e: "invoiceEntries (invoicesOf db') = kvPut key buf (invoiceEntries (invoicesOf db))"
    and s: "serializeInvoice loff i = Inr buf" and v: "validateInvoice i = Inr ()"
    and d: "distinct (map fst (Htlcs i))" and pa: "AmtPaid i = amtNotCanceled i"
  shows "paidStore loff db'"
  unfolding paidStore_def
proof (intro ballI, clarify)
  fix k bytes assume "(k, bytes) \<in> set (invoiceEntries (invoicesOf db'))"
  then have "(k, bytes) = (key, buf) \<or> (k, bytes) \<in> set (invoiceEntries (invoicesOf db))"
    using kvPut_set [of key buf "invoiceEntries (invoicesOf db)"] e by auto
  then show "\<exists>i. serializeInvoice loff i = Inr bytes \<and> validateInvoice i = Inr ()
           \<and> distinct (map fst (Htlcs i)) \<and> AmtPaid i = amtNotCanceled i"
  proof
    assume "(k, bytes) = (key, buf)"
    then show ?thesis using s v d pa by auto
  next
    assume "(k, bytes) \<in> set (invoiceEntries (invoicesOf db))"
    then show ?thesis using p by (auto simp: paidStore_def)
  qed
qed

lemma paidStore_AddInvoice:
  assumes p: "paidStore loff db" and pa: "AmtPaid i = amtNotCanceled i"
    and d: "distinct (map fst (Htlcs i))"
  shows "paidStore loff (snd (AddInvoice loff db i h))"
proof -
  from AddInvoice_entries [of loff db i h]
  show ?thesis
  proof
    assume "snd (AddInvoice loff db i h) = db"
    then show ?thesis using p by simp
  next
    assume "validateInvoice i = Inr ()
      \<and> (\<exists>key buf n. serializeInvoice loff (i\<lparr>AddIndex := n\<rparr>) = Inr buf
            \<and> invoiceEntries (invoicesOf (snd (AddInvoice loff db i h)))
                = kvPut key buf (invoiceEntries (invoicesOf db)))"
    then obtain key buf n where v: "validateInvoice i = Inr ()"
      and s: "serializeInvoice loff (i\<lparr>AddIndex := n\<rparr>) = Inr buf"
      and e: "invoiceEntries (invoicesOf (snd (AddInvoice loff db i h)))
                = kvPut key buf (invoiceEntries (invoicesOf db))"
      by blast
    have v': "validateInvoice (i\<lparr>AddIndex := n\<rparr>) = Inr ()"
      using v validateInvoice_cong [of "i\<lparr>AddIndex := n\<rparr>" i] by simp
    show ?thesis
      by (rule paidStore_put [OF p e s v'])
         (simp_all add: d pa amtNotCanceled_def)
  qed
qed

lemma paidStore_UpdateInvoice:
  assumes p: "paidStore loff db" and ro: "readOnly callback"
  shows "paidStore loff (snd (UpdateInvoice loff hashOf now db h callback))"
proof -
  from UpdateInvoice_entries [of loff hashOf now db h callback]
  show ?thesis
  proof
    assume "snd (UpdateInvoice loff hashOf now db h callback) = db"
    then show ?thesis using p by simp
  next
    assume "\<exists>num invoice update invoice2 buf.
        fetchInvoice loff num (invoiceEntries (invoicesOf db)) = Inr invoice
      \<and> fst (callbackResult callback invoice) = Inr update
      \<and> applyHtlcUpdates (State (Terms invoice)) now (Htlcs_upd update)
           ((snd (callbackResult callback invoice))
              \<lparr>Terms := (Terms (snd (callbackResult callback invoice)))\<lparr>State := State_upd update\<rparr>\<rparr>)
           = Inr invoice2
      \<and> serializeInvoice loff
           (if settles invoice update
            then settledInvoice now (Preimage update) (nextSettleIndex db) invoice2
            else invoice2) = Inr buf
      \<and> invoiceEntries (invoicesOf (snd (UpdateInvoice loff hashOf now db h callback)))
           = kvPut num buf (invoiceEntries (invoicesOf db))"
    then obtain num invoice update invoice2 buf where
        f: "fetchInvoice loff num (invoiceEntries (invoicesOf db)) = Inr invoice"
      and a0: "applyHtlcUpdates (State (Terms invoice)) now (Htlcs_upd update)
           ((snd (callbackResult callback invoice))
              \<lparr>Terms := (Terms (snd (callbackResult callback invoice)))\<lparr>State := State_upd update\<rparr>\<rparr>)
           = Inr invoice2"
      and s: "serializeInvoice loff
           (if settles invoice update
            then settledInvoice now (Preimage update) (nextSettleIndex db) invoice2
            else invoice2) = Inr buf"
      and e: "invoiceEntries (invoicesOf (snd (UpdateInvoice loff hashOf now db h callback)))
           = kvPut num buf (invoiceEntries (invoicesOf db))"
      by blast
    have a: "applyHtlcUpdates (State (Terms invoice)) now (Htlcs_upd update)
           (invoice\<lparr>Terms := (Terms invoice)\<lparr>State := State_upd update\<rparr>\<rparr>) = Inr invoice2"
      using a0 callbackResult_readOnly [OF ro, of invoice] by simp
    from paidStore_fetch [OF p f] have pi: "AmtPaid invoice = amtNotCanceled invoice"
      and di: "distinct (map fst (Htlcs invoice))" and vi: "validateInvoice invoice = Inr ()"
      by simp_all
    have p2: "AmtPaid invoice2 = amtNotCanceled invoice2 \<and> distinct (map fst (Htlcs invoice2))"
      by (rule applyHtlcUpdates_paid [OF a]) (simp_all add: pi di amtNotCanceled_def)
    have v2: "validateInvoice invoice2 = Inr ()"
      using applyHtlcUpdates_frame [OF a] vi validateInvoice_cong [of invoice2 invoice] by simp
    let ?f = "if settles invoice update
            then settledInvoice now (Preimage update) (nextSettleIndex db) invoice2
            else invoice2"
    have pf: "AmtPaid ?f = amtNotCanceled ?f \<and> distinct (map fst (Htlcs ?f))"
      using p2 settledInvoice_paid [of invoice2] by simp
    have "validateInvoice (settledInvoice now (Preimage update) (nextSettleIndex db) invoice2)
            = validateInvoice invoice2"
      by (rule validateInvoice_cong) (simp_all add: settledInvoice_def)
    then have vf: "validateInvoice ?f = Inr ()"
      using v2 by simp
    show ?thesis
      using paidStore_put [OF p e s vf] pf by simp
  qed
qed

lemma paidStore_empty: "paidStore loff None"
  by (simp add: paidStore_def invoicesOf_def emptyInvoices_def)

lemma paidStore_foldl:
  assumes "paidStore loff db" and "\<forall>op \<in> set ops. admissible op"
  shows "paidStore loff (foldl (applyOp loff hashOf) db ops)"
  using assms
proof (induction ops arbitrary: db)
  case Nil
  then show ?case by simp
next
  case (Cons op ops)
  have "paidStore loff (applyOp loff hashOf db op)"
  proof (cases op)
    case (OpAdd i h)
    then show ?thesis using Cons.prems by (simp add: paidStore_AddInvoice)
  next
    case (OpUpdate h callback now)
    then show ?thesis using Cons.prems by (simp add: paidStore_UpdateInvoice)
  qed
  then show ?case using Cons.IH Cons.prems(2) by simp
qed

lemma paidStore_LookupInvoice:
  assumes p: "paidStore loff db" and l: "LookupInvoice loff db h = Inr i"
  shows "AmtPaid i = amtNotCanceled i"
proof -
  from l obtain invoices idx num where db: "db = Some invoices"
    and f: "fetchInvoice loff num (invoiceEntries invoices) = Inr i"
    by (rule LookupInvoice_InrE)
  have "fetchInvoice loff num (invoiceEntries (invoicesOf db)) = Inr i"
    using f by (simp add: invoicesOf_def db)
  from paidStore_fetch [OF p this] show ?thesis by simp
qed


section \<open>Facts about the channel arbitrator\<close>

lemma stateStep_acts:
  assumes "stateStep cfg trigger lg s = (acts, res)" and "a \<in> set acts"
  shows "allowedIn False s s a"
  using assms
  by (auto simp: stateStep_def
      split: ArbitratorState.splits Trigger.splits PublishResult.splits sum.splits if_splits)

lemma stateStep_diagram:
  assumes "stateStep cfg trigger lg s = (acts, Inr n)" and "n \<noteq> s"
  shows "diagram s n"
  using assms
  by (auto simp: stateStep_def
      split: ArbitratorState.splits Trigger.splits PublishResult.splits sum.splits if_splits)

lemma ordered_acts:
  assumes "\<forall>a \<in> set acts. allowedIn fresh p s a" and "ordered fresh p rest"
  shows "ordered fresh p (map (\<lambda>a. Did a s) acts @ rest)"
  using assms by (induction acts) auto

lemma persisted_acts [simp]:
  "persisted p (map (\<lambda>a. Did a s) acts @ rest) = persisted p rest"
  by (induction acts) auto

lemma commits_acts [simp]: "commits (map (\<lambda>a. Did a s) acts @ rest) = commits rest"
  by (induction acts) auto

lemma advanceState_stop:
  assumes "stateStep cfg trigger (log arb) (arbState arb) = (acts, res)"
    and "\<forall>n. res = Inr n \<longrightarrow> n = arbState arb"
  shows "advanceState cfg trigger arb = arb\<lparr>observed := observed arb @ map (\<lambda>a. Did a (arbState arb)) acts\<rparr>"
  using assms by (subst advanceState.simps) (auto simp: Let_def split: sum.splits)

lemma advanceState_fail:
  assumes "stateStep cfg trigger (log arb) (arbState arb) = (acts, Inr n)"
    and "n \<noteq> arbState arb" and "CommitState n (log arb) = Inl e"
  shows "advanceState cfg trigger arb
           = arb\<lparr>observed := observed arb @ map (\<lambda>a. Did a (arbState arb)) acts @ [CommitFailed n]\<rparr>"
  using assms by (subst advanceState.simps) (simp add: Let_def)

lemma advanceState_commit:
  assumes "stateStep cfg trigger (log arb) (arbState arb) = (acts, Inr n)"
    and "n \<noteq> arbState arb" and "CommitState n (log arb) = Inr lg"
  shows "advanceState cfg trigger arb
           = advanceState cfg trigger
               (arb\<lparr>observed := observed arb @ map (\<lambda>a. Did a (arbState arb)) acts, log := lg, arbState := n,
                    observed := (observed arb @ map (\<lambda>a. Did a (arbState arb)) acts) @ [Committed n]\<rparr>)"
  using assms by (subst advanceState.simps) (simp add: Let_def)

lemma advanceState_props:
  assumes "arbState arb = state (log arb)"
  shows "\<exists>obs. observed (advanceState cfg trigger arb) = observed arb @ obs
      \<and> ordered False (state (log arb)) obs
      \<and> state (log (advanceState cfg trigger arb)) = persisted (state (log arb)) obs
      \<and> arbState (advanceState cfg trigger arb) = state (log (advanceState cfg trigger arb))
      \<and> newStates (log (advanceState cfg trigger arb)) = newStates (log arb) @ commits obs
      \<and> follows (state (log arb)) (commits obs)
      \<and> failLog (log (advanceState cfg trigger arb)) = failLog (log arb)
      \<and> failFetch (log (advanceState cfg trigger arb)) = failFetch (log arb)
      \<and> failCommit (log (advanceState cfg trigger arb)) = failCommit (log arb)
      \<and> failCommitState (log (advanceState cfg trigger arb)) = failCommitState (log arb)"
  using assms
proof (induction cfg trigger arb rule: advanceState.induct)
  case (1 cfg trigger arb)
  obtain acts res where st: "stateStep cfg trigger (log arb) (arbState arb) = (acts, res)"
    by (cases "stateStep cfg trigger (log arb) (arbState arb)")
  have al: "\<forall>a \<in> set acts. allowedIn False (state (log arb)) (arbState arb) a"
    using stateStep_acts [OF st] "1.prems" by simp
  have o1: "ordered False (state (log arb)) (map (\<lambda>a. Did a (arbState arb)) acts @ rest)"
    if "ordered False (state (log arb)) rest" for rest
    using ordered_acts [OF al that] .
  show ?case
  proof (cases "\<forall>n. res = Inr n \<longrightarrow> n = arbState arb")
    case True
    have e: "advanceState cfg trigger arb = arb\<lparr>observed := observed arb @ map (\<lambda>a. Did a (arbState arb)) acts\<rparr>"
      by (rule advanceState_stop [OF st True])
    show ?thesis
      by (rule exI [of _ "map (\<lambda>a. Did a (arbState arb)) acts @ []"], unfold e)
         (use o1 [of "[]"] "1.prems" in \<open>simp del: append_Nil2\<close>)
  next
    case False
    then obtain n where res: "res = Inr n" and ne: "n \<noteq> arbState arb" by auto
    note st' = st [unfolded res]
    have d: "diagram (state (log arb)) n"
      using stateStep_diagram [OF st' ne] "1.prems" by simp
    show ?thesis
    proof (cases "CommitState n (log arb)")
      case (Inl e)
      have e: "advanceState cfg trigger arb
           = arb\<lparr>observed := observed arb @ map (\<lambda>a. Did a (arbState arb)) acts @ [CommitFailed n]\<rparr>"
        by (rule advanceState_fail [OF st' ne Inl])
      show ?thesis
        by (rule exI [of _ "map (\<lambda>a. Did a (arbState arb)) acts @ [CommitFailed n]"], unfold e)
           (use o1 [of "[CommitFailed n]"] "1.prems" in simp)
    next
      case (Inr lg)
      have lg: "lg = (log arb)\<lparr>state := n, newStates := newStates (log arb) @ [n]\<rparr>"
        using Inr by (auto simp: CommitState_def split: if_splits)
      let ?arb1 = "arb\<lparr>observed := observed arb @ map (\<lambda>a. Did a (arbState arb)) acts\<rparr>"
      let ?arb2 = "?arb1\<lparr>log := lg, arbState := n, observed := observed ?arb1 @ [Committed n]\<rparr>"
      have e: "advanceState cfg trigger arb = advanceState cfg trigger ?arb2"
        using advanceState_commit [OF st' ne Inr] by simp
      have "\<exists>obs. observed (advanceState cfg trigger ?arb2) = observed ?arb2 @ obs
        \<and> ordered False (state (log ?arb2)) obs
        \<and> state (log (advanceState cfg trigger ?arb2)) = persisted (state (log ?arb2)) obs
        \<and> arbState (advanceState cfg trigger ?arb2) = state (log (advanceState cfg trigger ?arb2))
        \<and> newStates (log (advanceState cfg trigger ?arb2)) = newStates (log ?arb2) @ commits obs
        \<and> follows (state (log ?arb2)) (commits obs)
        \<and> failLog (log (advanceState cfg trigger ?arb2)) = failLog (log ?arb2)
        \<and> failFetch (log (advanceState cfg trigger ?arb2)) = failFetch (log ?arb2)
        \<and> failCommit (log (advanceState cfg trigger ?arb2)) = failCommit (log ?arb2)
        \<and> failCommitState (log (advanceState cfg trigger ?arb2)) = failCommitState (log ?arb2)"
      proof (rule "1.IH" [OF st [symmetric] refl res ne])
        show "CommitState n (log ?arb1) = Inr lg" using Inr by simp
        show "arbState ?arb2 = state (log ?arb2)" by (simp add: lg)
      qed
      then obtain obs2 where
        a1: "observed (advanceState cfg trigger ?arb2) = observed ?arb2 @ obs2"
        and a2: "ordered False (state (log ?arb2)) obs2"
        and a3: "state (log (advanceState cfg trigger ?arb2)) = persisted (state (log ?arb2)) obs2"
        and a4: "arbState (advanceState cfg trigger ?arb2) = state (log (advanceState cfg trigger ?arb2))"
        and a5: "newStates (log (advanceState cfg trigger ?arb2)) = newStates (log ?arb2) @ commits obs2"
        and a6: "follows (state (log ?arb2)) (commits obs2)"
        and a7: "failLog (log (advanceState cfg trigger ?arb2)) = failLog (log ?arb2)"
          "failFetch (log (advanceState cfg trigger ?arb2)) = failFetch (log ?arb2)"
          "failCommit (log (advanceState cfg trigger ?arb2)) = failCommit (log ?arb2)"
          "failCommitState (log (advanceState cfg trigger ?arb2)) = failCommitState (log ?arb2)"
        by blast
      have s2: "state (log ?arb2) = n" by (simp add: lg)
      show ?thesis
        by (rule exI [of _ "map (\<lambda>a. Did a (arbState arb)) acts @ Committed n # obs2"], unfold e)
           (use a1 a2 a3 a4 a5 a6 a7 d o1 [of "Committed n # obs2"] in \<open>simp add: lg\<close>)
    qed
  qed
qed

lemma ordered_mono: "ordered False p obs \<Longrightarrow> ordered fresh p obs"
proof (induction obs arbitrary: p)
  case Nil
  then show ?case by simp
next
  case (Cons x obs)
  show ?case
  proof (cases x)
    case (Did a s)
    then show ?thesis using Cons by (cases a) auto
  next
    case (Committed n)
    then show ?thesis using Cons by simp
  next
    case (CommitFailed n)
    then show ?thesis using Cons by simp
  qed
qed

lemma quiet_reply: "quiet obs \<Longrightarrow> quiet (obs @ [Did (DoReply e) s])"
  by (induction obs rule: quiet.induct) auto

lemma ordered_reply: "ordered fresh p obs \<Longrightarrow> ordered fresh p (obs @ [Did (DoReply e) s])"
  by (induction fresh p obs rule: ordered.induct) (auto simp: quiet_reply)

lemma persisted_append: "persisted p (xs @ ys) = persisted (persisted p xs) ys"
  by (induction p xs rule: persisted.induct) auto

lemma commits_append: "commits (xs @ ys) = commits xs @ commits ys"
  by (induction xs rule: commits.induct) auto

lemma persisted_last: "persisted p obs = last (p # commits obs)"
  by (induction p obs rule: persisted.induct) auto

lemma follows_append:
  "follows s xs \<Longrightarrow> follows (last (s # xs)) ys \<Longrightarrow> follows s (xs @ ys)"
  by (induction s xs rule: follows.induct) auto

lemma afterClose_props:
  assumes "arbState arb = state (log arb)"
  shows "\<exists>obs. observed (afterClose cfg trigger arb) = observed arb @ obs
      \<and> ordered True (state (log arb)) obs
      \<and> state (log (afterClose cfg trigger arb)) = persisted (state (log arb)) obs
      \<and> arbState (afterClose cfg trigger arb) = state (log (afterClose cfg trigger arb))
      \<and> newStates (log (afterClose cfg trigger arb)) = newStates (log arb) @ commits obs
      \<and> follows (state (log arb)) (commits obs)"
proof (cases "MarkChannelClosed cfg")
  case False
  then have e: "afterClose cfg trigger arb
      = arb\<lparr>observed := observed arb @ [Did DoMarkChannelClosed (arbState arb)]\<rparr>"
    by (simp add: afterClose_def)
  show ?thesis
    by (rule exI [of _ "[Did DoMarkChannelClosed (arbState arb)]"], unfold e) (use assms in simp)
next
  case True
  let ?arb1 = "arb\<lparr>observed := observed arb @ [Did DoMarkChannelClosed (arbState arb)]\<rparr>"
  have e: "afterClose cfg trigger arb = advanceState cfg trigger ?arb1"
    using True by (simp add: afterClose_def)
  have "arbState ?arb1 = state (log ?arb1)" using assms by simp
  from advanceState_props [OF this, of cfg trigger]
  obtain obs where a1: "observed (advanceState cfg trigger ?arb1) = observed ?arb1 @ obs"
    and a2: "ordered False (state (log arb)) obs"
    and a3: "state (log (advanceState cfg trigger ?arb1)) = persisted (state (log arb)) obs"
    and a4: "arbState (advanceState cfg trigger ?arb1) = state (log (advanceState cfg trigger ?arb1))"
    and a5: "newStates (log (advanceState cfg trigger ?arb1)) = newStates (log arb) @ commits obs"
    and a6: "follows (state (log arb)) (commits obs)"
    by auto
  show ?thesis
    by (rule exI [of _ "Did DoMarkChannelClosed (arbState arb) # obs"], unfold e)
       (use a1 a3 a4 a5 a6 ordered_mono [OF a2, of True] in simp)
qed

lemma handleEvent_props:
  assumes "arbState arb = state (log arb)"
  shows "\<exists>obs. observed (handleEvent cfg ev arb) = observed arb @ obs
      \<and> ordered True (state (log arb)) obs
      \<and> state (log (handleEvent cfg ev arb)) = persisted (state (log arb)) obs
      \<and> arbState (handleEvent cfg ev arb) = state (log (handleEvent cfg ev arb))
      \<and> newStates (log (handleEvent cfg ev arb)) = newStates (log arb) @ commits obs
      \<and> follows (state (log arb)) (commits obs)"
proof -
  have adv: "\<exists>obs. observed (advanceState cfg trigger arb) = observed arb @ obs
      \<and> ordered True (state (log arb)) obs
      \<and> state (log (advanceState cfg trigger arb)) = persisted (state (log arb)) obs
      \<and> arbState (advanceState cfg trigger arb) = state (log (advanceState cfg trigger arb))
      \<and> newStates (log (advanceState cfg trigger arb)) = newStates (log arb) @ commits obs
      \<and> follows (state (log arb)) (commits obs)" for trigger
    using advanceState_props [OF assms, of cfg trigger] ordered_mono [of "state (log arb)" _ True]
    by blast
  have skip: "\<exists>obs. observed arb = observed arb @ obs
      \<and> ordered True (state (log arb)) obs
      \<and> state (log arb) = persisted (state (log arb)) obs
      \<and> arbState arb = state (log arb)
      \<and> newStates (log arb) = newStates (log arb) @ commits obs
      \<and> follows (state (log arb)) (commits obs)"
    by (rule exI [of _ "[]"]) (use assms in simp)
  show ?thesis
  proof (cases ev)
    case ForceCloseReq
    show ?thesis
    proof (cases "arbState arb = StateDefault")
      case False
      then have e: "handleEvent cfg ev arb
          = arb\<lparr>observed := observed arb
                   @ [Did (DoReply (Some ErrAlreadyForceClosed)) (arbState arb)]\<rparr>"
        by (simp add: handleEvent_def ForceCloseReq)
      show ?thesis
        by (rule exI [of _ "[Did (DoReply (Some ErrAlreadyForceClosed)) (arbState arb)]"], unfold e)
           (use assms in simp)
    next
      case True
      from adv [of ForceCloseRequest] obtain obs where
        a1: "observed (advanceState cfg ForceCloseRequest arb) = observed arb @ obs"
        and a2: "ordered True (state (log arb)) obs"
        and a3: "state (log (advanceState cfg ForceCloseRequest arb)) = persisted (state (log arb)) obs"
        and a4: "arbState (advanceState cfg ForceCloseRequest arb)
                   = state (log (advanceState cfg ForceCloseRequest arb))"
        and a5: "newStates (log (advanceState cfg ForceCloseRequest arb))
                   = newStates (log arb) @ commits obs"
        and a6: "follows (state (log arb)) (commits obs)"
        by auto
      obtain r t where e: "handleEvent cfg ev arb
          = (advanceState cfg ForceCloseRequest arb)
              \<lparr>observed := observed (advanceState cfg ForceCloseRequest arb) @ [Did (DoReply r) t]\<rparr>"
        using True by (simp add: handleEvent_def ForceCloseReq Let_def)
      show ?thesis
        by (rule exI [of _ "obs @ [Did (DoReply r) t]"], unfold e)
           (use a1 a3 a4 a5 a6 ordered_reply [OF a2, of r t] in
             \<open>simp add: persisted_append commits_append\<close>)
    qed
  next
    case Epoch
    then show ?thesis using adv [of BlockEpoch] by (simp add: handleEvent_def)
  next
    case LocalClose
    then show ?thesis
      using afterClose_props [OF assms, of cfg LocalUnilateralClose] skip
      by (cases "LogContractResolutions (log arb)") (simp_all add: handleEvent_def)
  next
    case RemoteClose
    then show ?thesis
      using afterClose_props [OF assms, of cfg RemoteUnilateralClose] skip
      by (cases "LogContractResolutions (log arb)") (simp_all add: handleEvent_def)
  next
    case CoopClose
    then show ?thesis
      using afterClose_props [OF assms, of cfg CooperativeClose] by (simp add: handleEvent_def)
  next
    case Breach
    then show ?thesis using adv [of ContractBreach] by (simp add: handleEvent_def)
  next
    case ResolverSwept
    show ?thesis
    proof (cases "arbState arb = StateWaitingFullResolution")
      case True
      then have e: "handleEvent cfg ev arb
          = arb\<lparr>observed := observed arb @ [Did DoResolutionMsg (arbState arb)]\<rparr>"
        by (simp add: handleEvent_def ResolverSwept)
      show ?thesis
        by (rule exI [of _ "[Did DoResolutionMsg (arbState arb)]"], unfold e)
           (use assms in simp)
    next
      case False
      then show ?thesis using skip by (simp add: handleEvent_def ResolverSwept)
    qed
  next
    case ResolversDone
    then show ?thesis using adv [of ResolversFinished] by (simp add: handleEvent_def)
  next
    case (Restart pending)
    have "arb\<lparr>arbState := CurrentState (log arb)\<rparr> = arb"
      using assms by (simp add: CurrentState_def)
    then show ?thesis
      using adv [of "case pending of None \<Rightarrow> BlockEpoch | Some t \<Rightarrow> t"] Restart
      by (simp add: handleEvent_def)
  next
    case (SetLog fl ff fc fs)
    have e: "handleEvent cfg ev arb
        = arb\<lparr>log := (log arb)\<lparr>failLog := fl, failFetch := ff, failCommit := fc,
                                 failCommitState := fs\<rparr>\<rparr>"
      by (simp add: handleEvent_def SetLog)
    show ?thesis
      by (rule exI [of _ "[]"], unfold e) (use assms in simp)
  qed
qed

lemma run_props:
  assumes "arbState arb = state (log arb)"
  shows "\<exists>added. newStates (log (run evs arb)) = newStates (log arb) @ added
      \<and> follows (state (log arb)) added
      \<and> state (log (run evs arb)) = last (state (log arb) # added)
      \<and> arbState (run evs arb) = state (log (run evs arb))"
  using assms
proof (induction evs arbitrary: arb)
  case Nil
  show ?case by (rule exI [of _ "[]"]) (use Nil in simp)
next
  case (Cons ce evs)
  obtain cfg ev where ce: "ce = (cfg, ev)" by (cases ce)
  from handleEvent_props [OF Cons.prems, of cfg ev]
  obtain obs where
    h3: "state (log (handleEvent cfg ev arb)) = persisted (state (log arb)) obs"
    and h4: "arbState (handleEvent cfg ev arb) = state (log (handleEvent cfg ev arb))"
    and h5: "newStates (log (handleEvent cfg ev arb)) = newStates (log arb) @ commits obs"
    and h6: "follows (state (log arb)) (commits obs)"
    by auto
  from Cons.IH [OF h4] obtain added where
    r1: "newStates (log (run evs (handleEvent cfg ev arb)))
           = newStates (log (handleEvent cfg ev arb)) @ added"
    and r2: "follows (state (log (handleEvent cfg ev arb))) added"
    and r3: "state (log (run evs (handleEvent cfg ev arb)))
           = last (state (log (handleEvent cfg ev arb)) # added)"
    and r4: "arbState (run evs (handleEvent cfg ev arb))
           = state (log (run evs (handleEvent cfg ev arb)))"
    by auto
  have l: "state (log (handleEvent cfg ev arb)) = last (state (log arb) # commits obs)"
    using h3 by (simp add: persisted_last)
  have f: "follows (state (log arb)) (commits obs @ added)"
    using follows_append [OF h6] r2 l by simp
  show ?case
    by (rule exI [of _ "commits obs @ added"])
       (use r1 r3 r4 h5 f l in \<open>simp add: ce\<close>)
qed

lemma advanceState_breach:
  assumes s: "arbState arb = state (log arb)" and n: "state (log arb) \<noteq> StateFullyResolved"
    and c: "\<not> isl (CommitState StateFullyResolved (log arb))"
  shows "newStates (log (advanceState cfg ContractBreach arb))
           = newStates (log arb) @ [StateFullyResolved]
       \<and> state (log (advanceState cfg ContractBreach arb)) = StateFullyResolved"
proof -
  have st: "stateStep cfg ContractBreach (log arb) (arbState arb) = ([], Inr StateFullyResolved)"
    using s n by (cases "state (log arb)") (simp_all add: stateStep_def)
  have ne: "StateFullyResolved \<noteq> arbState arb" using s n by simp
  obtain lg where lg: "CommitState StateFullyResolved (log arb) = Inr lg"
    using c by (cases "CommitState StateFullyResolved (log arb)") simp_all
  have lg': "lg = (log arb)\<lparr>state := StateFullyResolved,
                              newStates := newStates (log arb) @ [StateFullyResolved]\<rparr>"
    using lg by (auto simp: CommitState_def split: if_splits)
  let ?arb2 = "arb\<lparr>observed := observed arb @ map (\<lambda>a. Did a (arbState arb)) [],
                    log := lg, arbState := StateFullyResolved,
                    observed := (observed arb @ map (\<lambda>a. Did a (arbState arb)) [])
                                @ [Committed StateFullyResolved]\<rparr>"
  have e: "advanceState cfg ContractBreach arb = advanceState cfg ContractBreach ?arb2"
    by (rule advanceState_commit [OF st ne lg])
  have st2: "stateStep cfg ContractBreach (log ?arb2) (arbState ?arb2)
               = ([DoMarkChannelResolved], Inr StateFullyResolved)"
    by (simp add: stateStep_def)
  have "advanceState cfg ContractBreach ?arb2
          = ?arb2\<lparr>observed := observed ?arb2
                        @ map (\<lambda>a. Did a (arbState ?arb2)) [DoMarkChannelResolved]\<rparr>"
    by (rule advanceState_stop [OF st2]) simp
  then show ?thesis by (simp add: e lg')
qed

section \<open>The tests of the channel arbitrator on the model\<close>

lemma run_local_force_close:
  "run [(cfg0, ForceCloseReq), (cfg0, LocalClose)] (startArbitrator log0)
     = \<lparr> log = log0\<lparr>state := StateFullyResolved,
                     newStates := [StateBroadcastCommit, StateCommitmentBroadcasted,
                                   StateContractClosed, StateFullyResolved]\<rparr>,
         arbState = StateFullyResolved,
         observed = [Committed StateBroadcastCommit, Did DoPublishTx StateBroadcastCommit,
                     Committed StateCommitmentBroadcasted,
                     Did (DoReply None) StateCommitmentBroadcasted,
                     Did DoMarkChannelClosed StateCommitmentBroadcasted,
                     Committed StateContractClosed, Committed StateFullyResolved,
                     Did DoMarkChannelResolved StateFullyResolved] \<rparr>"
  by (simp add: handleEvent_def afterClose_def advanceState.simps stateStep_def CommitState_def
      LogContractResolutions_def FetchContractResolutions_def startArbitrator_def CurrentState_def
      log0_def cfg0_def Let_def)


lemmas arb_eval = handleEvent_def afterClose_def advanceState.simps stateStep_def CommitState_def
  LogContractResolutions_def FetchContractResolutions_def startArbitrator_def CurrentState_def
  log0_def cfg0_def Let_def

lemma test_cooperative_close:
  "newStates (log (run [(cfg0, CoopClose)] (startArbitrator log0))) = [StateFullyResolved]"
  by (simp add: arb_eval)

lemma test_remote_force_close:
  "newStates (log (run [(cfg0, RemoteClose)] (startArbitrator log0)))
     = [StateContractClosed, StateFullyResolved]"
  by (simp add: arb_eval)

lemma test_breach_close:
  "newStates (log (run [(cfg0, Breach)] (startArbitrator log0))) = [StateFullyResolved]"
  by (simp add: arb_eval)

lemma run_pending_htlc:
  "arbPendingHtlc
     = \<lparr> log = log0\<lparr>state := StateWaitingFullResolution,
                     newStates := [StateBroadcastCommit, StateCommitmentBroadcasted,
                                   StateContractClosed, StateWaitingFullResolution]\<rparr>,
         arbState = StateWaitingFullResolution,
         observed = [Committed StateBroadcastCommit, Did DoPublishTx StateBroadcastCommit,
                     Committed StateCommitmentBroadcasted,
                     Did (DoReply None) StateCommitmentBroadcasted,
                     Did DoMarkChannelClosed StateCommitmentBroadcasted,
                     Committed StateContractClosed,
                     Did DoResolutionMsg StateContractClosed,
                     Committed StateWaitingFullResolution] \<rparr>"
  by (simp add: arbPendingHtlc_def cfgPendingHtlc_def arb_eval)

lemma test_local_force_close_pending_htlc:
  "newStates (log arbPendingHtlc)
     = [StateBroadcastCommit, StateCommitmentBroadcasted, StateContractClosed,
        StateWaitingFullResolution]
   \<and> observedSince arbPendingHtlc
        (run [(cfgPendingHtlc, Restart None), (cfgPendingHtlc, ResolverSwept)] arbPendingHtlc)
     = [Did DoResolutionMsg StateWaitingFullResolution]
   \<and> committedSince arbPendingHtlc
        (run [(cfgPendingHtlc, Restart None), (cfgPendingHtlc, ResolverSwept)] arbPendingHtlc) = []
   \<and> committedSince arbPendingHtlc
        (run [(cfgPendingHtlc, Restart None), (cfgPendingHtlc, ResolverSwept),
              (cfgPendingHtlc, ResolversDone)] arbPendingHtlc)
     = [StateFullyResolved]"
  unfolding run_pending_htlc
  by (simp add: arb_eval cfgPendingHtlc_def observedSince_def committedSince_def)

lemma test_persistence:
  "state (log (run [(cfg0, RemoteClose)] (startArbitrator (log0\<lparr>failLog := True\<rparr>)))) = StateDefault
   \<and> state (log (run [(cfg0\<lparr>MarkChannelClosed := False\<rparr>, RemoteClose)] (startArbitrator log0)))
       = StateDefault
   \<and> newStates (log (run [(cfg0, RemoteClose)] (startArbitrator (log0\<lparr>failFetch := True\<rparr>))))
       = [StateContractClosed]
   \<and> newStates (log (run [(cfg0, RemoteClose), (cfg0, SetLog False False False StateDefault),
                          (cfg0, Restart None)]
                       (startArbitrator (log0\<lparr>failFetch := True\<rparr>))))
       = [StateContractClosed, StateFullyResolved]"
  by (simp add: arb_eval)

lemma test_force_close_breached_channel:
  "newStates (log (run [(cfg0\<lparr>PublishTx := PublishFailed\<rparr>, ForceCloseReq)] (startArbitrator log0)))
     = [StateBroadcastCommit]
   \<and> newStates (log (run [(cfg0\<lparr>PublishTx := PublishFailed\<rparr>, ForceCloseReq),
                          (cfg0, Restart (Some ContractBreach))] (startArbitrator log0)))
     = [StateBroadcastCommit, StateFullyResolved]"
  by (simp add: arb_eval)

lemma test_commit_failure:
  "state (log (run [(cfg0, CoopClose)] (startArbitrator logFailCommit))) = StateDefault
   \<and> newStates (log (run [(cfg0, CoopClose), (cfg0, SetLog False False False StateFullyResolved),
                          (cfg0, Restart (Some CooperativeClose))]
                       (startArbitrator logFailCommit)))
       = [StateFullyResolved]
   \<and> newStates (log (run [(cfg0, RemoteClose), (cfg0, SetLog False False False StateContractClosed),
                          (cfg0, Restart (Some RemoteUnilateralClose))]
                       (startArbitrator (log0\<lparr>failCommit := True,
                                               failCommitState := StateContractClosed\<rparr>))))
       = [StateContractClosed, StateFullyResolved]"
  by (simp add: arb_eval logFailCommit_def)

lemma test_already_force_closed:
  "observedSince (run [(cfg0, ForceCloseReq)] (startArbitrator log0))
     (run [(cfg0, ForceCloseReq), (cfg0, ForceCloseReq)] (startArbitrator log0))
     = [Did (DoReply (Some ErrAlreadyForceClosed)) StateCommitmentBroadcasted]"
  by (simp add: arb_eval observedSince_def)

lemma test_dangling_commit_force_close:
  "newStates (log (run [(cfg0\<lparr>htlcNearExpiry := True\<rparr>, Epoch)] (startArbitrator log0)))
     = [StateBroadcastCommit, StateCommitmentBroadcasted]
   \<and> newStates (log (run [(cfg0\<lparr>htlcNearExpiry := True\<rparr>, Epoch),
                          (cfg0\<lparr>liveHtlcs := True\<rparr>, LocalClose)] (startArbitrator log0)))
     = [StateBroadcastCommit, StateCommitmentBroadcasted, StateContractClosed,
        StateWaitingFullResolution, StateFullyResolved]"
  by (simp add: arb_eval)

section \<open>The claims\<close>

text \<open>
  Claim C9. For every AcceptChannel message, decoding the output of Encode gives the
  message back, and the encoded payload is at most MaxPayloadLength bytes long, which is
  exactly 270. The key codec is a parameter: it compresses every key to 33 bytes and
  parses a compressed key back to the key.
\<close>

theorem AcceptChannel_roundtrip:
  assumes "\<forall>k. length (ser k) = 33 \<and> parse (ser k) = Some k"
  shows "Decode parse (Encode ser a) = Inr a
     \<and> length (Encode ser a) \<le> MaxPayloadLength
     \<and> length (Encode ser a) = 270 \<and> MaxPayloadLength = 270"
proof -
  have k: "\<And>k rest. ReadElement_key parse (ser k @ rest) = Inr (k, rest)"
    using assms by (simp add: ReadElement_key_append)
  have "Decode parse (Encode ser a) = Inr a"
    unfolding Decode_def Encode_def
    using k [of "FirstCommitmentPoint a" "[]"]
    by (simp add: read_be_WriteElement k)
  moreover have "length (Encode ser a) = 270"
    using assms by (simp add: Encode_def WriteElement_uint_def)
  ultimately show ?thesis by (simp add: MaxPayloadLength_def)
qed

theorem AcceptChannel_roundtrip_witness:
  "(\<forall>k. length (ser33 k) = 33 \<and> parse33 (ser33 k) = Some k)
   \<and> Decode parse33 (Encode ser33 example_accept) = Inr example_accept
   \<and> length (Encode ser33 example_accept) = 270"
  using AcceptChannel_roundtrip [of ser33 parse33 example_accept] ser33_codec
  by blast

text \<open>
  Claim C7. AddInvoice rejects an invoice whose payment hash is already in the store:
  the call fails and leaves the database as it was, and the error is ErrDuplicateInvoice
  whenever the invoice passes validateInvoice, which runs first. A memo, receipt or payment
  request above its bound (MaxMemoSize = 1024, MaxReceiptSize = 1024,
  MaxPaymentRequestSize = 4096) makes the call fail; with all three within their bounds,
  equality included, a new payment hash and dates that MarshalBinary accepts, the call
  succeeds, sets the invoice's AddIndex to the next value of the add index's sequence and
  returns it. That value is at least 1 unless the 64-bit sequence has run through all its
  values.
\<close>

theorem AddInvoice_contract:
  "(hashStored db h \<longrightarrow>
      isl (fst (AddInvoice loff db i h)) \<and> snd (AddInvoice loff db i h) = db
      \<and> (validateInvoice i = Inr () \<longrightarrow>
           fst (AddInvoice loff db i h) = Inl ErrDuplicateInvoice))
   \<and> (length (Memo i) > MaxMemoSize \<or> length (Receipt i) > MaxReceiptSize
        \<or> length (PaymentRequest i) > MaxPaymentRequestSize \<longrightarrow>
      AddInvoice loff db i h = (Inl ErrValidateInvoice, db))
   \<and> (length (Memo i) \<le> MaxMemoSize \<and> length (Receipt i) \<le> MaxReceiptSize
        \<and> length (PaymentRequest i) \<le> MaxPaymentRequestSize
        \<and> \<not> hashStored db h \<and> counterOk db
        \<and> marshals loff (CreationDate i) \<and> marshals loff (SettleDate i) \<longrightarrow>
      (\<exists>db'. AddInvoice loff db i h
                = (Inr (nextAddIndex db, i\<lparr>AddIndex := nextAddIndex db\<rparr>), db')
             \<and> hashStored db' h \<and> addSequence db' = nextAddIndex db))
   \<and> (addSequence db \<noteq> - 1 \<longrightarrow> 1 \<le> nextAddIndex db)
   \<and> MaxMemoSize = 1024 \<and> MaxReceiptSize = 1024 \<and> MaxPaymentRequestSize = 4096"
proof -
  have dup: "hashStored db h \<longrightarrow>
      isl (fst (AddInvoice loff db i h)) \<and> snd (AddInvoice loff db i h) = db
      \<and> (validateInvoice i = Inr () \<longrightarrow>
           fst (AddInvoice loff db i h) = Inl ErrDuplicateInvoice)"
  proof (cases "validateInvoice i")
    case (Inl e)
    then show ?thesis by (simp add: AddInvoice_invalid)
  next
    case (Inr u)
    then show ?thesis by (simp add: AddInvoice_duplicate)
  qed
  have big: "length (Memo i) > MaxMemoSize \<or> length (Receipt i) > MaxReceiptSize
        \<or> length (PaymentRequest i) > MaxPaymentRequestSize \<longrightarrow>
      AddInvoice loff db i h = (Inl ErrValidateInvoice, db)"
    using AddInvoice_invalid [of i ErrValidateInvoice loff db h]
    by (simp add: validateInvoice_Inl)
  have ok: "length (Memo i) \<le> MaxMemoSize \<and> length (Receipt i) \<le> MaxReceiptSize
        \<and> length (PaymentRequest i) \<le> MaxPaymentRequestSize
        \<and> \<not> hashStored db h \<and> counterOk db
        \<and> marshals loff (CreationDate i) \<and> marshals loff (SettleDate i) \<longrightarrow>
      (\<exists>db'. AddInvoice loff db i h
                = (Inr (nextAddIndex db, i\<lparr>AddIndex := nextAddIndex db\<rparr>), db')
             \<and> hashStored db' h \<and> addSequence db' = nextAddIndex db)"
    using AddInvoice_success_marshals [of i db h loff]
    by (auto simp: validateInvoice_Inr)
  have pos: "addSequence db \<noteq> - 1 \<longrightarrow> 1 \<le> nextAddIndex db"
    by (simp add: nextAddIndex_def word64_succ_ge_1)
  show ?thesis
    using dup big ok pos
    by (simp add: MaxMemoSize_def MaxReceiptSize_def MaxPaymentRequestSize_def)
qed

theorem AddInvoice_contract_witness:
  "length (Memo invoice0) = MaxMemoSize \<and> length (Receipt invoice0) = MaxReceiptSize
   \<and> length (PaymentRequest invoice0) = MaxPaymentRequestSize
   \<and> \<not> hashStored None 77 \<and> counterOk None \<and> addSequence None \<noteq> - 1
   \<and> marshals loff0 (CreationDate invoice0) \<and> marshals loff0 (SettleDate invoice0)
   \<and> fst (AddInvoice loff0 None invoice0 77) = Inr (1, invoice0\<lparr>AddIndex := 1\<rparr>)
   \<and> hashStored (snd (AddInvoice loff0 None invoice0 77)) 77
   \<and> fst (AddInvoice loff0 (snd (AddInvoice loff0 None invoice0 77)) invoice0 77)
       = Inl ErrDuplicateInvoice
   \<and> length (Memo (invoice0\<lparr>Memo := replicate 1025 0\<rparr>)) = MaxMemoSize + 1
   \<and> AddInvoice loff0 None (invoice0\<lparr>Memo := replicate 1025 0\<rparr>) 77
       = (Inl ErrValidateInvoice, None)"
proof -
  have len: "length (Memo invoice0) = MaxMemoSize \<and> length (Receipt invoice0) = MaxReceiptSize
      \<and> length (PaymentRequest invoice0) = MaxPaymentRequestSize"
    by (simp add: invoice0_def MaxMemoSize_def MaxReceiptSize_def MaxPaymentRequestSize_def)
  have nh: "\<not> hashStored None 77"
    by (simp add: hashStored_def invoicesOf_def emptyInvoices_def createIfNotExists_def
        emptyBucket_def kvGet_def)
  have co: "counterOk None"
    by (simp add: counterOk_def invoicesOf_def emptyInvoices_def createIfNotExists_def
        emptyBucket_def kvGet_def)
  have sq: "addSequence None = 0"
    by (simp add: addSequence_def invoicesOf_def emptyInvoices_def createIfNotExists_def
        emptyBucket_def)
  have nx: "nextAddIndex None = 1"
    by (simp add: nextAddIndex_def sq)
  have m: "marshals loff0 (CreationDate invoice0) \<and> marshals loff0 (SettleDate invoice0)"
    by (simp add: invoice0_def marshals_Unix0_loff0 marshals_zeroTime)
  have vd: "validateInvoice invoice0 = Inr ()"
    using len by (simp add: validateInvoice_Inr)
  obtain db' where a: "AddInvoice loff0 None invoice0 77
        = (Inr (1, invoice0\<lparr>AddIndex := 1\<rparr>), db')" and hs: "hashStored db' 77"
    using AddInvoice_contract [where db = None and h = 77 and loff = loff0 and i = invoice0]
      len nh co m nx by auto
  have dup: "fst (AddInvoice loff0 db' invoice0 77) = Inl ErrDuplicateInvoice"
    using AddInvoice_contract [where db = db' and h = 77 and loff = loff0 and i = invoice0]
      hs vd by simp
  have big: "length (Memo (invoice0\<lparr>Memo := replicate 1025 0\<rparr>)) = MaxMemoSize + 1"
    by (simp add: MaxMemoSize_def)
  have rej: "AddInvoice loff0 None (invoice0\<lparr>Memo := replicate 1025 0\<rparr>) 77
       = (Inl ErrValidateInvoice, None)"
    using AddInvoice_contract [where db = None and h = 77 and loff = loff0
        and i = "invoice0\<lparr>Memo := replicate 1025 0\<rparr>"] big
    by simp
  show ?thesis
    using len nh co sq m a hs dup big rej by simp
qed

text \<open>
  Claim C3. InvoicesAddedSince and InvoicesSettledSince return exactly the invoices whose
  index is above the one given, and nothing for the index 0. The theorem follows the
  code on the database that one AddInvoice leaves behind an empty one: the bucket of the
  settle index does not exist yet, and InvoicesSettledSince(1) returns the error
  ErrNoInvoicesCreated where the invoices with a settle index above 1 are the empty list.
  InvoicesAddedSince turns that same error into the empty list, as on the empty database.
\<close>

theorem InvoicesSettledSince_without_settle_bucket:
  "fst (AddInvoice loff0 None invoice0 77) = Inr (1, invoice0\<lparr>AddIndex := 1\<rparr>)
   \<and> InvoicesSettledSince loff0 (snd (AddInvoice loff0 None invoice0 77)) 1
       = Inl ErrNoInvoicesCreated
   \<and> InvoicesSettledSince loff0 None 1 = Inl ErrNoInvoicesCreated
   \<and> InvoicesAddedSince loff0 None 1 = Inr []"
proof -
  have vd: "validateInvoice invoice0 = Inr ()"
    by (simp add: validateInvoice_Inr invoice0_def MaxMemoSize_def MaxReceiptSize_def
        MaxPaymentRequestSize_def)
  have nh: "\<not> hashStored None 77"
    by (simp add: hashStored_def invoicesOf_def emptyInvoices_def createIfNotExists_def
        emptyBucket_def kvGet_def)
  have co: "counterOk None"
    by (simp add: counterOk_def invoicesOf_def emptyInvoices_def createIfNotExists_def
        emptyBucket_def kvGet_def)
  have nx: "nextAddIndex None = 1"
    by (simp add: nextAddIndex_def addSequence_def invoicesOf_def emptyInvoices_def
        createIfNotExists_def emptyBucket_def)
  obtain buf where buf: "serializeInvoice loff0 (invoice0\<lparr>AddIndex := nextAddIndex None\<rparr>) = Inr buf"
    using serializeInvoice_marshals [of loff0 "invoice0\<lparr>AddIndex := nextAddIndex None\<rparr>"]
    by (auto simp: invoice0_def marshals_Unix0_loff0 marshals_zeroTime)
  obtain invoices' where a: "AddInvoice loff0 None invoice0 77
        = (Inr (1, invoice0\<lparr>AddIndex := 1\<rparr>), Some invoices')"
      and s: "settleIndexBucket invoices' = None"
    using AddInvoice_success [OF vd nh co buf]
    by (auto simp: nx invoicesOf_def emptyInvoices_def)
  have "InvoicesSettledSince loff0 (Some invoices') 1 = Inl ErrNoInvoicesCreated"
    by (simp add: InvoicesSettledSince_def sinceView_def s)
  moreover have "InvoicesSettledSince loff0 None 1 = Inl ErrNoInvoicesCreated"
    by (simp add: InvoicesSettledSince_def sinceView_def)
  moreover have "InvoicesAddedSince loff0 None 1 = Inr []"
    by (simp add: InvoicesAddedSince_def sinceView_def)
  ultimately show ?thesis using a by simp
qed

text \<open>
  Claim C8, as amended. When the memo, the receipt and the payment request of an invoice
  are within MaxMemoSize, MaxReceiptSize and MaxPaymentRequestSize, its creation and settle
  dates are dates that MarshalBinary accepts and UnmarshalBinary returns unchanged, the
  accept and resolve times of its htlcs are local times whose nanoseconds since 1970 fit an
  int64, and every circuit key occurs once in its map of htlcs, then serializeInvoice
  succeeds and deserializeInvoice gives back, from its output, the invoice itself.
\<close>

theorem serializeInvoice_roundtrip:
  assumes "length (Memo i) \<le> MaxMemoSize"
    and "length (Receipt i) \<le> MaxReceiptSize"
    and "length (PaymentRequest i) \<le> MaxPaymentRequestSize"
    and "storableDate loff (CreationDate i)"
    and "storableDate loff (SettleDate i)"
    and "\<forall>h \<in> snd ` set (Htlcs i). storableHtlc h"
    and "distinct (map fst (Htlcs i))"
  shows "bindE (serializeInvoice loff i) (deserializeInvoice loff) = Inr i"
proof -
  obtain bs where bs: "serializeInvoice loff i = Inr bs"
    using serializeInvoice_marshals [of loff i] assms(4,5)
    by (auto simp: storableDate_def)
  have "deserializeInvoice loff bs = Inr (normInvoice loff i)"
    using deserializeInvoice_serializeInvoice [OF bs assms(1,2,3,7)] .
  also have "normInvoice loff i = i"
    using assms(4,5,6) by (rule normInvoice_storable)
  finally show ?thesis by (simp add: bs)
qed

theorem serializeInvoice_roundtrip_witness:
  "length (Memo (invoice0\<lparr>Htlcs := [(key1, htlcSettled)]\<rparr>)) \<le> MaxMemoSize
   \<and> length (Receipt (invoice0\<lparr>Htlcs := [(key1, htlcSettled)]\<rparr>)) \<le> MaxReceiptSize
   \<and> length (PaymentRequest (invoice0\<lparr>Htlcs := [(key1, htlcSettled)]\<rparr>)) \<le> MaxPaymentRequestSize
   \<and> storableDate loff0 (CreationDate (invoice0\<lparr>Htlcs := [(key1, htlcSettled)]\<rparr>))
   \<and> storableDate loff0 (SettleDate (invoice0\<lparr>Htlcs := [(key1, htlcSettled)]\<rparr>))
   \<and> storableHtlc htlcSettled
   \<and> distinct (map fst (Htlcs (invoice0\<lparr>Htlcs := [(key1, htlcSettled)]\<rparr>)))
   \<and> bindE (serializeInvoice loff0 (invoice0\<lparr>Htlcs := [(key1, htlcSettled)]\<rparr>))
         (deserializeInvoice loff0)
       = Inr (invoice0\<lparr>Htlcs := [(key1, htlcSettled)]\<rparr>)"
proof -
  have len: "length (Memo invoice0) \<le> MaxMemoSize \<and> length (Receipt invoice0) \<le> MaxReceiptSize
      \<and> length (PaymentRequest invoice0) \<le> MaxPaymentRequestSize"
    by (simp add: invoice0_def MaxMemoSize_def MaxReceiptSize_def MaxPaymentRequestSize_def)
  have dates: "storableDate loff0 (CreationDate invoice0) \<and> storableDate loff0 (SettleDate invoice0)"
    by (simp add: invoice0_def storableDate_Unix0_loff0 storableDate_zeroTime)
  have h: "storableHtlc htlcSettled"
    by (simp add: storableHtlc_def htlcSettled_def nanoTime_Unix0)
  show ?thesis
    using serializeInvoice_roundtrip [of "invoice0\<lparr>Htlcs := [(key1, htlcSettled)]\<rparr>" loff0]
      len dates h
    by simp
qed

text \<open>
  Claim C8, as stated, fails. An invoice with a memo of 1025 bytes is serialised, and
  deserializeInvoice refuses the output with the error of ReadVarBytes. An invoice with an
  accepted htlc, whose resolve time is the zero time, is serialised and read back with
  another resolve time: the nanoseconds of the zero time do not fit an int64, and the
  value that was stored is a local time in the year 1754.
\<close>

theorem serializeInvoice_roundtrip_counterexample:
  "\<not> isl (serializeInvoice loff0 (invoice0\<lparr>Memo := replicate 1025 0\<rparr>))
   \<and> bindE (serializeInvoice loff0 (invoice0\<lparr>Memo := replicate 1025 0\<rparr>))
         (deserializeInvoice loff0)
       = Inl ErrVarBytesTooLong
   \<and> bindE (serializeInvoice loff0 (invoice0\<lparr>Htlcs := [(key1, htlcAccepted)]\<rparr>))
         (deserializeInvoice loff0)
       = Inr (invoice0\<lparr>Htlcs := [(key1, htlcAccepted\<lparr>ResolveTime := Unix0 (UnixNano zeroTime)\<rparr>)]\<rparr>)
   \<and> Unix0 (UnixNano zeroTime)
       = \<lparr> t_sec = 55340232221, t_nsec = 128654848, t_mono = None, t_loc = Local \<rparr>
   \<and> ResolveTime htlcAccepted = \<lparr> t_sec = 0, t_nsec = 0, t_mono = None, t_loc = UTC \<rparr>"
proof -
  have dates: "marshals loff0 (CreationDate invoice0) \<and> marshals loff0 (SettleDate invoice0)"
    by (simp add: invoice0_def marshals_Unix0_loff0 marshals_zeroTime)
  obtain bs where bs: "serializeInvoice loff0 (invoice0\<lparr>Memo := replicate 1025 0\<rparr>) = Inr bs"
    using serializeInvoice_marshals [of loff0 "invoice0\<lparr>Memo := replicate 1025 0\<rparr>"] dates
    by auto
  have big: "deserializeInvoice loff0 bs = Inl ErrVarBytesTooLong"
    using deserializeInvoice_big_memo [OF bs] by (simp add: MaxMemoSize_def)
  obtain cs where cs: "serializeInvoice loff0 (invoice0\<lparr>Htlcs := [(key1, htlcAccepted)]\<rparr>) = Inr cs"
    using serializeInvoice_marshals [of loff0 "invoice0\<lparr>Htlcs := [(key1, htlcAccepted)]\<rparr>"] dates
    by auto
  have len: "length (Memo invoice0) \<le> MaxMemoSize \<and> length (Receipt invoice0) \<le> MaxReceiptSize
      \<and> length (PaymentRequest invoice0) \<le> MaxPaymentRequestSize"
    by (simp add: invoice0_def MaxMemoSize_def MaxReceiptSize_def MaxPaymentRequestSize_def)
  have nd: "normDate loff0 (CreationDate invoice0) = CreationDate invoice0
      \<and> normDate loff0 (SettleDate invoice0) = SettleDate invoice0"
    by (simp add: invoice0_def normDate_storable storableDate_Unix0_loff0 storableDate_zeroTime)
  have nh: "normHtlc htlcAccepted = htlcAccepted\<lparr>ResolveTime := Unix0 (UnixNano zeroTime)\<rparr>"
    using Unix0_UnixNano [OF nanoTime_Unix0 [of 1000]]
    by (simp add: normHtlc_def htlcAccepted_def)
  have "deserializeInvoice loff0 cs = Inr (normInvoice loff0 (invoice0\<lparr>Htlcs := [(key1, htlcAccepted)]\<rparr>))"
    using deserializeInvoice_serializeInvoice [OF cs] len by simp
  also have "normInvoice loff0 (invoice0\<lparr>Htlcs := [(key1, htlcAccepted)]\<rparr>)
      = invoice0\<lparr>Htlcs := [(key1, htlcAccepted\<lparr>ResolveTime := Unix0 (UnixNano zeroTime)\<rparr>)]\<rparr>"
    using nd by (simp add: normInvoice_def nh)
  finally have rd: "deserializeInvoice loff0 cs
      = Inr (invoice0\<lparr>Htlcs := [(key1, htlcAccepted\<lparr>ResolveTime := Unix0 (UnixNano zeroTime)\<rparr>)]\<rparr>)" .
  have z: "Unix0 (UnixNano zeroTime)
       = \<lparr> t_sec = 55340232221, t_nsec = 128654848, t_mono = None, t_loc = Local \<rparr>"
    by (simp add: Unix0_def UnixNano_def zeroTime_def unixToInternal_def)
  have r: "ResolveTime htlcAccepted = \<lparr> t_sec = 0, t_nsec = 0, t_mono = None, t_loc = UTC \<rparr>"
    by (simp add: htlcAccepted_def zeroTime_def)
  show ?thesis
    using big rd z r by (simp add: bs cs)
qed

text \<open>
  Claim C4. Let the invoice stored under the payment hash be the one that LookupInvoice
  returns, and let the callback return an update descriptor. UpdateInvoice returns an
  error, and the database is the one before the call, so that the stored invoice is
  unchanged, in each of these cases: the descriptor adds an htlc under a circuit key that
  the invoice already has; the descriptor cancels an htlc of the invoice whose state, when
  the callback has returned, is not Accepted; the invoice is not settled, the descriptor
  moves it to Settled and the hash of the descriptor's preimage is not the payment hash.
\<close>

theorem UpdateInvoice_rejects:
  assumes l: "LookupInvoice loff db paymentHash = Inr invoice"
    and c: "callbackResult callback invoice = (Inr update, invoice1)"
    and bad: "(\<exists>key d. (key, Some d) \<in> set (Htlcs_upd update) \<and> map_of (Htlcs invoice) key \<noteq> None)
            \<or> (\<exists>key htlc. (key, None) \<in> set (Htlcs_upd update)
                   \<and> map_of (Htlcs invoice1) key = Some htlc
                   \<and> State_htlc htlc \<noteq> HtlcStateAccepted)
            \<or> (State (Terms invoice) \<noteq> ContractSettled \<and> State_upd update = ContractSettled
                   \<and> hashOf (Preimage update) \<noteq> paymentHash)"
  shows "(\<exists>e. UpdateInvoice loff hashOf now db paymentHash callback = ((None, Some e), db))
       \<and> LookupInvoice loff (snd (UpdateInvoice loff hashOf now db paymentHash callback)) paymentHash
           = Inr invoice"
proof -
  from l obtain invoices idx num where db: "db = Some invoices"
    and idx: "invoiceIndexBucket invoices = Some idx"
    and num: "kvGet (be_bytes 32 (unat paymentHash)) (entries idx) = Some num"
    and f: "fetchInvoice loff num (invoiceEntries invoices) = Inr invoice"
    by (rule LookupInvoice_InrE)
  have keys: "map fst (Htlcs invoice1) = map fst (Htlcs invoice)"
    using callbackResult_keys [of callback invoice] c by simp
  have dom: "map_of (Htlcs invoice1) key \<noteq> None \<longleftrightarrow> map_of (Htlcs invoice) key \<noteq> None" for key
    using keys by (metis map_of_eq_None_iff set_map)
  let ?start = "invoice1\<lparr>Terms := (Terms invoice1)\<lparr>State := State_upd update\<rparr>\<rparr>"
  have "isl (applyHtlcUpdates (State (Terms invoice)) now (Htlcs_upd update) ?start)
        \<or> (State (Terms invoice) \<noteq> ContractSettled \<and> State_upd update = ContractSettled
                 \<and> hashOf (Preimage update) \<noteq> paymentHash)"
    using bad
  proof (elim disjE exE conjE)
    fix key d assume "(key, Some d) \<in> set (Htlcs_upd update)" "map_of (Htlcs invoice) key \<noteq> None"
    then show ?thesis
      using applyHtlcUpdates_existing [of key d "Htlcs_upd update" ?start] dom by simp
  next
    fix key htlc assume "(key, None) \<in> set (Htlcs_upd update)"
      "map_of (Htlcs invoice1) key = Some htlc" "State_htlc htlc \<noteq> HtlcStateAccepted"
    then show ?thesis
      using applyHtlcUpdates_cancel_resolved [of key "Htlcs_upd update" ?start htlc] by simp
  qed simp
  from updateInvoice_error [where hashOf = hashOf and hash = paymentHash and now = now, OF f c this]
  obtain e where "updateInvoice loff hashOf now paymentHash (invoiceEntries invoices)
             (createIfNotExists (settleIndexBucket invoices)) num callback = Inl (e, None)"
    by blast
  then have "UpdateInvoice loff hashOf now db paymentHash callback = ((None, Some e), db)"
    by (simp add: UpdateInvoice_found [OF db idx num])
  then show ?thesis using l by simp
qed

text \<open>
  The three cases on the example databases: accepting once more the htlc that the stored
  invoice holds, cancelling the htlc that is already canceled, and settling with a
  preimage of another hash.
\<close>

theorem UpdateInvoice_rejects_witness:
  "LookupInvoice loff0 db2 paymentHash0 = Inr invoiceAccepted
   \<and> (key1, Some acceptDesc) \<in> set (Htlcs_upd updAccept)
   \<and> map_of (Htlcs invoiceAccepted) key1 \<noteq> None
   \<and> (\<exists>e. UpdateInvoice loff0 exampleHash (Unix0 3000) db2 paymentHash0 (cbReturn updAccept)
       = ((None, Some e), db2))
   \<and> LookupInvoice loff0 db3 paymentHash0 = Inr invoiceCanceledHtlc
   \<and> (key1, None) \<in> set (Htlcs_upd updCancel)
   \<and> map_option State_htlc (map_of (Htlcs invoiceCanceledHtlc) key1) = Some HtlcStateCanceled
   \<and> (\<exists>e. UpdateInvoice loff0 exampleHash (Unix0 3000) db3 paymentHash0 (cbReturn updCancel)
       = ((None, Some e), db3))
   \<and> State (Terms invoiceAccepted) = ContractAccepted
   \<and> State_upd updWrongPreimage = ContractSettled
   \<and> exampleHash (Preimage updWrongPreimage) \<noteq> paymentHash0
   \<and> (\<exists>e. UpdateInvoice loff0 exampleHash (Unix0 3000) db2 paymentHash0 (cbReturn updWrongPreimage)
       = ((None, Some e), db2))"
proof -
  have l2: "LookupInvoice loff0 db2 paymentHash0 = Inr invoiceAccepted"
    using UpdateInvoice_db1_accept by simp
  note l3 = UpdateInvoice_db2_cancel
  have k1: "(key1, Some acceptDesc) \<in> set (Htlcs_upd updAccept)"
    "map_of (Htlcs invoiceAccepted) key1 \<noteq> None"
    by (simp_all add: updAccept_def invoiceAccepted_def)
  have k2: "(key1, None) \<in> set (Htlcs_upd updCancel)"
    "map_of (Htlcs invoiceCanceledHtlc) key1
       = Some (htlcAccepted\<lparr>ResolveTime := Unix0 2000, State_htlc := HtlcStateCanceled\<rparr>)"
    "State_htlc (htlcAccepted\<lparr>ResolveTime := Unix0 2000, State_htlc := HtlcStateCanceled\<rparr>)
       \<noteq> HtlcStateAccepted"
    by (simp_all add: updCancel_def invoiceCanceledHtlc_def HtlcStateCanceled_def HtlcStateAccepted_def)
  have k3: "State (Terms invoiceAccepted) = ContractAccepted"
    "State (Terms invoiceAccepted) \<noteq> ContractSettled"
    "State_upd updWrongPreimage = ContractSettled"
    "exampleHash (Preimage updWrongPreimage) \<noteq> paymentHash0"
    by (simp_all add: invoiceAccepted_def updWrongPreimage_def exampleHash_def paymentHash0_def
        ContractAccepted_def ContractSettled_def)
  have r1: "\<exists>e. UpdateInvoice loff0 exampleHash (Unix0 3000) db2 paymentHash0 (cbReturn updAccept)
       = ((None, Some e), db2)"
    using UpdateInvoice_rejects [where hashOf = exampleHash and now = "Unix0 3000",
        OF l2 callbackResult_cbReturn [of updAccept]] k1 by blast
  have r2: "\<exists>e. UpdateInvoice loff0 exampleHash (Unix0 3000) db3 paymentHash0 (cbReturn updCancel)
       = ((None, Some e), db3)"
    using UpdateInvoice_rejects [where hashOf = exampleHash and now = "Unix0 3000",
        OF l3 callbackResult_cbReturn [of updCancel]] k2 by blast
  have r3: "\<exists>e. UpdateInvoice loff0 exampleHash (Unix0 3000) db2 paymentHash0 (cbReturn updWrongPreimage)
       = ((None, Some e), db2)"
    using UpdateInvoice_rejects [where hashOf = exampleHash and now = "Unix0 3000",
        OF l2 callbackResult_cbReturn [of updWrongPreimage]] k3 by blast
  have s2: "map_option State_htlc (map_of (Htlcs invoiceCanceledHtlc) key1) = Some HtlcStateCanceled"
    by (simp add: k2(2))
  show ?thesis
    using l2 l3 k1 k2(1) s2 k3(1,3,4) r1 r2 r3 by blast
qed

text \<open>
  Claim C10, amended. Let an update succeed whose descriptor, a map with distinct circuit
  keys, accepts an htlc under a key. In the updated invoice the htlc is recorded with the
  amount, accept height and expiry of the descriptor and the time of the update as accept
  time. When the invoice was settled before the update, or the update moves it to Settled,
  the htlc is recorded in Settled state with the time of the update as resolve time;
  otherwise it is recorded in Accepted state with the zero resolve time. The paid amount
  of the updated invoice is the one before plus the amounts of the accepted htlcs minus
  the amounts of the canceled ones, and the entry written to the database is the
  serialisation of the updated invoice.
\<close>

theorem UpdateInvoice_new_htlc:
  assumes l: "LookupInvoice loff db paymentHash = Inr invoice"
    and c: "callbackResult callback invoice = (Inr update, invoice1)"
    and u: "UpdateInvoice loff hashOf now db paymentHash callback = ((Some updated, None), db')"
    and d: "distinct (map fst (Htlcs_upd update))"
    and k: "(key, Some desc) \<in> set (Htlcs_upd update)"
  shows "map_of (Htlcs updated) key =
           Some \<lparr> Amt = Amt_desc desc, AcceptHeight = AcceptHeight_desc desc, AcceptTime = now,
                  ResolveTime = (if State (Terms invoice) = ContractSettled
                                    \<or> State_upd update = ContractSettled then now else zeroTime),
                  Expiry_htlc = Expiry_desc desc,
                  State_htlc = (if State (Terms invoice) = ContractSettled
                                   \<or> State_upd update = ContractSettled
                                then HtlcStateSettled else HtlcStateAccepted) \<rparr>
       \<and> AmtPaid updated = AmtPaid invoice + amtAdded (Htlcs_upd update)
                             - amtCanceled (Htlcs invoice1) (Htlcs_upd update)
       \<and> LookupInvoice loff db' paymentHash
           = bindE (serializeInvoice loff updated) (deserializeInvoice loff)"
proof -
  from UpdateInvoice_SomeD [OF l c u]
  obtain update' invoice2 buf where r: "Inr update = (Inr update' :: error + InvoiceUpdateDesc)"
    and a': "applyHtlcUpdates (State (Terms invoice)) now (Htlcs_upd update')
              (invoice1\<lparr>Terms := (Terms invoice1)\<lparr>State := State_upd update'\<rparr>\<rparr>) = Inr invoice2"
    and i': "Some updated = Some (if settles invoice update'
              then settledInvoice now (Preimage update') (nextSettleIndex db) invoice2
              else invoice2)"
    and s': "serializeInvoice loff (if settles invoice update'
              then settledInvoice now (Preimage update') (nextSettleIndex db) invoice2
              else invoice2) = Inr buf"
    and lk: "LookupInvoice loff db' paymentHash = deserializeInvoice loff buf"
    by blast
  have e: "update' = update" using r by simp
  note a = a' [unfolded e] and i = i' [unfolded e] and s = s' [unfolded e]
  have upd: "updated = (if settles invoice update
              then settledInvoice now (Preimage update) (nextSettleIndex db) invoice2
              else invoice2)" using i by simp
  have m: "map_of (Htlcs invoice2) key = Some (newHtlc (State (Terms invoice)) now desc)"
    by (rule applyHtlcUpdates_added [OF a d k])
  have p1: "AmtPaid invoice1 = AmtPaid invoice"
    using callbackResult_fields(2) [of callback invoice] c by simp
  have p: "AmtPaid invoice2 = AmtPaid invoice + amtAdded (Htlcs_upd update)
                             - amtCanceled (Htlcs invoice1) (Htlcs_upd update)"
    using applyHtlcUpdates_AmtPaid [OF a d] p1 by simp
  have g1: "map_of (Htlcs updated) key = Some (newHtlc (if State (Terms invoice) = ContractSettled
                                    \<or> State_upd update = ContractSettled then ContractSettled
                                    else ContractOpen) now desc)"
  proof (cases "settles invoice update")
    case True
    then show ?thesis
      by (simp add: upd settledInvoice_def map_of_settleAccepted m settleAccepted_newHtlc)
         (simp add: settles_def)
  next
    case False
    then show ?thesis
      by (auto simp: upd m settles_def newHtlc_def ContractSettled_def ContractOpen_def)
  qed
  have g2: "AmtPaid updated = AmtPaid invoice2"
    by (simp add: upd settledInvoice_def)
  have g3: "LookupInvoice loff db' paymentHash
           = bindE (serializeInvoice loff updated) (deserializeInvoice loff)"
    using s lk upd by simp
  from g1 have "map_of (Htlcs updated) key =
           Some \<lparr> Amt = Amt_desc desc, AcceptHeight = AcceptHeight_desc desc, AcceptTime = now,
                  ResolveTime = (if State (Terms invoice) = ContractSettled
                                    \<or> State_upd update = ContractSettled then now else zeroTime),
                  Expiry_htlc = Expiry_desc desc,
                  State_htlc = (if State (Terms invoice) = ContractSettled
                                   \<or> State_upd update = ContractSettled
                                then HtlcStateSettled else HtlcStateAccepted) \<rparr>"
    by (simp add: newHtlc_def ContractSettled_def ContractOpen_def)
  then show ?thesis using g2 p g3 by simp
qed

text \<open>
  Two updates of the examples: one that accepts an htlc on the open invoice without
  settling it, and one that accepts an htlc on the settled invoice.
\<close>

theorem UpdateInvoice_new_htlc_witness:
  "LookupInvoice loff0 db1 paymentHash0 = Inr (invoice0\<lparr>AddIndex := 1\<rparr>)
   \<and> State (Terms (invoice0\<lparr>AddIndex := 1\<rparr>)) = ContractOpen
   \<and> callbackResult (cbReturn updAccept) (invoice0\<lparr>AddIndex := 1\<rparr>)
        = (Inr updAccept, invoice0\<lparr>AddIndex := 1\<rparr>)
   \<and> UpdateInvoice loff0 exampleHash (Unix0 1000) db1 paymentHash0 (cbReturn updAccept)
        = ((Some (invoice0\<lparr>AddIndex := 1,
              Terms := \<lparr> PaymentPreimage = 0, Value = 1000000, State = ContractAccepted \<rparr>,
              AmtPaid := 1000000, Htlcs := [(key1, htlcAccepted)]\<rparr>), None), db2)
   \<and> distinct (map fst (Htlcs_upd updAccept))
   \<and> (key1, Some acceptDesc) \<in> set (Htlcs_upd updAccept)
   \<and> map_of [(key1, htlcAccepted)] key1 =
           Some \<lparr> Amt = 1000000, AcceptHeight = 50, AcceptTime = Unix0 1000,
                  ResolveTime = zeroTime, Expiry_htlc = 100, State_htlc = HtlcStateAccepted \<rparr>
   \<and> LookupInvoice loff0 db2 paymentHash0
        = bindE (serializeInvoice loff0 (invoice0\<lparr>AddIndex := 1,
              Terms := \<lparr> PaymentPreimage = 0, Value = 1000000, State = ContractAccepted \<rparr>,
              AmtPaid := 1000000, Htlcs := [(key1, htlcAccepted)]\<rparr>)) (deserializeInvoice loff0)
   \<and> LookupInvoice loff0 dbSettled paymentHash0 = Inr invoiceSettled
   \<and> State (Terms invoiceSettled) = ContractSettled
   \<and> callbackResult (cbReturn updLate) invoiceSettled = (Inr updLate, invoiceSettled)
   \<and> fst (UpdateInvoice loff0 exampleHash (Unix0 3000) dbSettled paymentHash0 (cbReturn updLate))
        = (Some invoiceLate, None)
   \<and> distinct (map fst (Htlcs_upd updLate))
   \<and> (key2, Some acceptDesc) \<in> set (Htlcs_upd updLate)
   \<and> map_of (Htlcs invoiceLate) key2 =
           Some \<lparr> Amt = 1000000, AcceptHeight = 50, AcceptTime = Unix0 3000,
                  ResolveTime = Unix0 3000, Expiry_htlc = 100, State_htlc = HtlcStateSettled \<rparr>
   \<and> AmtPaid invoiceLate = AmtPaid invoiceSettled + 1000000"
proof -
  let ?u = "invoice0\<lparr>AddIndex := 1,
              Terms := \<lparr> PaymentPreimage = 0, Value = 1000000, State = ContractAccepted \<rparr>,
              AmtPaid := 1000000, Htlcs := [(key1, htlcAccepted)]\<rparr>"
  have u: "UpdateInvoice loff0 exampleHash (Unix0 1000) db1 paymentHash0 (cbReturn updAccept)
        = ((Some ?u, None), db2)"
    using UpdateInvoice_db1_accept by (simp add: db2_def prod_eq_iff)
  have d: "distinct (map fst (Htlcs_upd updAccept))"
    and k: "(key1, Some acceptDesc) \<in> set (Htlcs_upd updAccept)"
    by (simp_all add: updAccept_def)
  have s: "State (Terms (invoice0\<lparr>AddIndex := 1\<rparr>)) = ContractOpen"
    by (simp add: invoice0_def)
  from UpdateInvoice_new_htlc [OF LookupInvoice_db1 callbackResult_cbReturn u d k]
  have "map_of (Htlcs ?u) key1 =
           Some \<lparr> Amt = Amt_desc acceptDesc, AcceptHeight = AcceptHeight_desc acceptDesc,
                  AcceptTime = Unix0 1000,
                  ResolveTime = (if State (Terms (invoice0\<lparr>AddIndex := 1\<rparr>)) = ContractSettled
                                    \<or> State_upd updAccept = ContractSettled then Unix0 1000 else zeroTime),
                  Expiry_htlc = Expiry_desc acceptDesc,
                  State_htlc = (if State (Terms (invoice0\<lparr>AddIndex := 1\<rparr>)) = ContractSettled
                                   \<or> State_upd updAccept = ContractSettled
                                then HtlcStateSettled else HtlcStateAccepted) \<rparr>"
    and lk: "LookupInvoice loff0 db2 paymentHash0
           = bindE (serializeInvoice loff0 ?u) (deserializeInvoice loff0)"
    by simp_all
  then have m: "map_of [(key1, htlcAccepted)] key1 =
           Some \<lparr> Amt = 1000000, AcceptHeight = 50, AcceptTime = Unix0 1000,
                  ResolveTime = zeroTime, Expiry_htlc = 100, State_htlc = HtlcStateAccepted \<rparr>"
    by (simp add: htlcAccepted_def)
  have first: "LookupInvoice loff0 db1 paymentHash0 = Inr (invoice0\<lparr>AddIndex := 1\<rparr>)
   \<and> State (Terms (invoice0\<lparr>AddIndex := 1\<rparr>)) = ContractOpen
   \<and> callbackResult (cbReturn updAccept) (invoice0\<lparr>AddIndex := 1\<rparr>)
        = (Inr updAccept, invoice0\<lparr>AddIndex := 1\<rparr>)
   \<and> UpdateInvoice loff0 exampleHash (Unix0 1000) db1 paymentHash0 (cbReturn updAccept)
        = ((Some ?u, None), db2)
   \<and> distinct (map fst (Htlcs_upd updAccept))
   \<and> (key1, Some acceptDesc) \<in> set (Htlcs_upd updAccept)
   \<and> map_of [(key1, htlcAccepted)] key1 =
           Some \<lparr> Amt = 1000000, AcceptHeight = 50, AcceptTime = Unix0 1000,
                  ResolveTime = zeroTime, Expiry_htlc = 100, State_htlc = HtlcStateAccepted \<rparr>
   \<and> LookupInvoice loff0 db2 paymentHash0
        = bindE (serializeInvoice loff0 ?u) (deserializeInvoice loff0)"
    using LookupInvoice_db1 s callbackResult_cbReturn [of updAccept "invoice0\<lparr>AddIndex := 1\<rparr>"]
      u d k m lk by blast
  have u2: "UpdateInvoice loff0 exampleHash (Unix0 3000) dbSettled paymentHash0 (cbReturn updLate)
        = ((Some invoiceLate, None),
           snd (UpdateInvoice loff0 exampleHash (Unix0 3000) dbSettled paymentHash0 (cbReturn updLate)))"
    using UpdateInvoice_dbSettled_late by (simp add: prod_eq_iff)
  have d2: "distinct (map fst (Htlcs_upd updLate))"
    and k2: "(key2, Some acceptDesc) \<in> set (Htlcs_upd updLate)"
    by (simp_all add: updLate_def)
  have s2: "State (Terms invoiceSettled) = ContractSettled"
    by (simp add: invoiceSettled_def)
  from UpdateInvoice_new_htlc [OF LookupInvoice_dbSettled callbackResult_cbReturn u2 d2 k2]
  have m2: "map_of (Htlcs invoiceLate) key2 =
           Some \<lparr> Amt = 1000000, AcceptHeight = 50, AcceptTime = Unix0 3000,
                  ResolveTime = Unix0 3000, Expiry_htlc = 100, State_htlc = HtlcStateSettled \<rparr>"
    and p2: "AmtPaid invoiceLate = AmtPaid invoiceSettled + amtAdded (Htlcs_upd updLate)
                             - amtCanceled (Htlcs invoiceSettled) (Htlcs_upd updLate)"
    by (simp_all add: s2 acceptDesc_def)
  have p2': "AmtPaid invoiceLate = AmtPaid invoiceSettled + 1000000"
    using p2 by (simp add: amtAdded_def amtCanceled_def updLate_def acceptDesc_def)
  have second: "LookupInvoice loff0 dbSettled paymentHash0 = Inr invoiceSettled
   \<and> State (Terms invoiceSettled) = ContractSettled
   \<and> callbackResult (cbReturn updLate) invoiceSettled = (Inr updLate, invoiceSettled)
   \<and> fst (UpdateInvoice loff0 exampleHash (Unix0 3000) dbSettled paymentHash0 (cbReturn updLate))
        = (Some invoiceLate, None)
   \<and> distinct (map fst (Htlcs_upd updLate))
   \<and> (key2, Some acceptDesc) \<in> set (Htlcs_upd updLate)
   \<and> map_of (Htlcs invoiceLate) key2 =
           Some \<lparr> Amt = 1000000, AcceptHeight = 50, AcceptTime = Unix0 3000,
                  ResolveTime = Unix0 3000, Expiry_htlc = 100, State_htlc = HtlcStateSettled \<rparr>
   \<and> AmtPaid invoiceLate = AmtPaid invoiceSettled + 1000000"
    using LookupInvoice_dbSettled s2 callbackResult_cbReturn [of updLate invoiceSettled]
      UpdateInvoice_dbSettled_late d2 k2 m2 p2' by blast
  from first second show ?thesis by (simp only: conj_assoc)
qed

text \<open>
  Claim C10, as stated, fails in its second half. The stored invoice is open and has no
  htlc; the descriptor accepts an htlc and moves the invoice to Settled with the right
  preimage. The htlc is created in Accepted state, and the loop that settles every
  accepted htlc then records it in Settled state with the time of the update as resolve
  time.
\<close>

theorem UpdateInvoice_new_htlc_counterexample:
  "LookupInvoice loff0 db1 paymentHash0 = Inr (invoice0\<lparr>AddIndex := 1\<rparr>)
   \<and> State (Terms (invoice0\<lparr>AddIndex := 1\<rparr>)) = ContractOpen
   \<and> Htlcs (invoice0\<lparr>AddIndex := 1\<rparr>) = []
   \<and> Htlcs_upd updSettle = [(key1, Some acceptDesc)]
   \<and> fst (UpdateInvoice loff0 exampleHash (Unix0 2000) db1 paymentHash0 (cbReturn updSettle))
        = (Some invoiceSettled, None)
   \<and> map_of (Htlcs invoiceSettled) key1 =
           Some \<lparr> Amt = 1000000, AcceptHeight = 50, AcceptTime = Unix0 2000,
                  ResolveTime = Unix0 2000, Expiry_htlc = 100, State_htlc = HtlcStateSettled \<rparr>
   \<and> HtlcStateSettled \<noteq> HtlcStateAccepted
   \<and> Unix0 2000 \<noteq> zeroTime"
  using LookupInvoice_db1 UpdateInvoice_db1_settle
  by (simp add: invoice0_def updSettle_def invoiceSettled_def htlcSettled_def
      HtlcStateSettled_def HtlcStateAccepted_def Unix0_def zeroTime_def)

text \<open>
  Claim C6 fails on the code. copyInvoice gives the callback a new map with the pointers
  of the stored invoice's htlc records (and an invoice without its Expiry), so a write of
  the callback to a record reaches the invoice that updateInvoice goes on to serialise.
  The second example database holds an invoice with one accepted htlc of amount 1000000.
  A callback that writes nothing and returns a descriptor without changes leaves the
  stored invoice as it is; a callback that returns the same descriptor after writing the
  amount 5 to the htlc record of its copy leaves a stored invoice whose htlc has the
  amount 5, with a paid amount of 1000000.
\<close>

theorem UpdateInvoice_callback_shares_htlcs:
  "LookupInvoice loff0 db2 paymentHash0 = Inr invoiceAccepted
   \<and> Expiry invoiceAccepted = 3600
   \<and> Expiry (copyInvoice invoiceAccepted) = 0
   \<and> fst (callbackResult (cbReturn updNothing) invoiceAccepted) = Inr updNothing
   \<and> LookupInvoice loff0
        (snd (UpdateInvoice loff0 exampleHash (Unix0 3000) db2 paymentHash0 (cbReturn updNothing)))
        paymentHash0 = Inr invoiceAccepted
   \<and> fst (callbackResult cbMut invoiceAccepted) = Inr updNothing
   \<and> fst (UpdateInvoice loff0 exampleHash (Unix0 3000) db2 paymentHash0 cbMut)
        = (Some invoiceMutated, None)
   \<and> LookupInvoice loff0
        (snd (UpdateInvoice loff0 exampleHash (Unix0 3000) db2 paymentHash0 cbMut))
        paymentHash0 = Inr invoiceMutated
   \<and> map_option Amt (map_of (Htlcs invoiceAccepted) key1) = Some 1000000
   \<and> map_option Amt (map_of (Htlcs invoiceMutated) key1) = Some 5
   \<and> AmtPaid invoiceMutated = 1000000"
  using LookupInvoice_db2 UpdateInvoice_db2_nothing UpdateInvoice_db2_cbMut
  by (simp add: callbackResult_cbReturn callbackResult_cbMut)
     (simp add: invoiceAccepted_def invoiceMutated_def invoice0_def copyInvoice_def htlcAccepted_def)

text \<open>
  Claim C5, amended. After any sequence of AddInvoice and UpdateInvoice calls on the empty
  database, in which every invoice is added with a paid amount equal to the sum of the
  amounts of its htlcs that are not canceled, and every callback writes to no htlc
  record, every invoice that LookupInvoice returns has a paid amount equal to the sum,
  with the wrapping arithmetic of the source, of the amounts of its htlcs that are not
  canceled: the accepted ones count as the settled ones do.
\<close>

theorem AmtPaid_invariant:
  assumes "\<forall>op \<in> set ops. admissible op"
    and "LookupInvoice loff (runOps loff hashOf ops) paymentHash = Inr invoice"
  shows "AmtPaid invoice = amtNotCanceled invoice"
  using paidStore_LookupInvoice [OF paidStore_foldl [OF paidStore_empty assms(1)]] assms(2)
  by (simp add: runOps_def)

text \<open>
  The sequence of the examples: the invoice is added, then an htlc is accepted.
\<close>

theorem AmtPaid_invariant_witness:
  "admissible (OpAdd invoice0 paymentHash0)
   \<and> admissible (OpUpdate paymentHash0 (cbReturn updAccept) (Unix0 1000))
   \<and> LookupInvoice loff0
        (runOps loff0 exampleHash
           [OpAdd invoice0 paymentHash0, OpUpdate paymentHash0 (cbReturn updAccept) (Unix0 1000)])
        paymentHash0 = Inr invoiceAccepted
   \<and> AmtPaid invoiceAccepted = amtNotCanceled invoiceAccepted
   \<and> amtNotCanceled invoiceAccepted = 1000000"
proof -
  have a1: "admissible (OpAdd invoice0 paymentHash0)"
    by (simp add: invoice0_def amtNotCanceled_def)
  have a2: "admissible (OpUpdate paymentHash0 (cbReturn updAccept) (Unix0 1000))"
    by (simp add: readOnly_def cbReturn_def)
  have l: "LookupInvoice loff0
        (runOps loff0 exampleHash
           [OpAdd invoice0 paymentHash0, OpUpdate paymentHash0 (cbReturn updAccept) (Unix0 1000)])
        paymentHash0 = Inr invoiceAccepted"
    by (simp add: runOps_db2 LookupInvoice_db2)
  have "AmtPaid invoiceAccepted = amtNotCanceled invoiceAccepted"
    using AmtPaid_invariant [of "[OpAdd invoice0 paymentHash0,
        OpUpdate paymentHash0 (cbReturn updAccept) (Unix0 1000)]" loff0 exampleHash paymentHash0
        invoiceAccepted] a1 a2 l by simp
  moreover have "AmtPaid invoiceAccepted = 1000000" by (simp add: invoiceAccepted_def)
  ultimately show ?thesis using a1 a2 l by simp
qed

text \<open>
  Claim C5, as stated, fails. After a successful AddInvoice and a successful UpdateInvoice
  that accepts an htlc of amount 1000000, the stored invoice has a paid amount of 1000000
  and no settled htlc.
\<close>

theorem AmtPaid_invariant_counterexample:
  "fst (AddInvoice loff0 None invoice0 paymentHash0) = Inr (1, invoice0\<lparr>AddIndex := 1\<rparr>)
   \<and> fst (UpdateInvoice loff0 exampleHash (Unix0 1000) db1 paymentHash0 (cbReturn updAccept))
       = (Some (invoice0\<lparr>AddIndex := 1,
              Terms := \<lparr> PaymentPreimage = 0, Value = 1000000, State = ContractAccepted \<rparr>,
              AmtPaid := 1000000, Htlcs := [(key1, htlcAccepted)]\<rparr>), None)
   \<and> runOps loff0 exampleHash
        [OpAdd invoice0 paymentHash0, OpUpdate paymentHash0 (cbReturn updAccept) (Unix0 1000)] = db2
   \<and> LookupInvoice loff0 db2 paymentHash0 = Inr invoiceAccepted
   \<and> AmtPaid invoiceAccepted = 1000000
   \<and> amtSettled invoiceAccepted = 0"
  using AddInvoice_None_invoice0 UpdateInvoice_db1_accept runOps_db2
  by (simp add: invoiceAccepted_def amtSettled_def htlcAccepted_def HtlcStateAccepted_def
      HtlcStateSettled_def)

text \<open>
  Claim C1. For an arbitrator whose state is the one of its log, and every sequence of
  events, each handled under any answers of its collaborators: the states sent by the
  successful CommitState calls are appended to the log's list in order, and they follow
  the diagram of section 4.5 from the state persisted at the start, step by step. In
  particular a breach seen in a state other than FullyResolved, when the log accepts
  FullyResolved, commits FullyResolved and nothing else.
\<close>

theorem committed_states_follow_diagram:
  assumes "arbState arb = state (log arb)"
  shows "newStates (log (run evs arb)) = newStates (log arb) @ committedSince arb (run evs arb)
       \<and> follows (state (log arb)) (committedSince arb (run evs arb))
       \<and> (state (log arb) \<noteq> StateFullyResolved
            \<and> \<not> isl (CommitState StateFullyResolved (log arb))
          \<longrightarrow> committedSince arb (handleEvent cfg Breach arb) = [StateFullyResolved]
              \<and> state (log (handleEvent cfg Breach arb)) = StateFullyResolved)"
proof -
  from run_props [OF assms, of evs] obtain added where
    r1: "newStates (log (run evs arb)) = newStates (log arb) @ added"
    and r2: "follows (state (log arb)) added"
    by auto
  have c: "committedSince arb (run evs arb) = added"
    by (simp add: committedSince_def r1)
  have b: "committedSince arb (handleEvent cfg Breach arb) = [StateFullyResolved]
              \<and> state (log (handleEvent cfg Breach arb)) = StateFullyResolved"
    if "state (log arb) \<noteq> StateFullyResolved" "\<not> isl (CommitState StateFullyResolved (log arb))"
    using advanceState_breach [OF assms that, of cfg]
    by (simp add: handleEvent_def committedSince_def)
  show ?thesis using r1 r2 c b by simp
qed

text \<open>
  The local force close of the tests: a force-close request, then the confirmation of the
  own commitment; and a breach seen in the default state.
\<close>

theorem committed_states_follow_diagram_witness:
  "arbState (startArbitrator log0) = state (log (startArbitrator log0))
   \<and> committedSince (startArbitrator log0)
        (run [(cfg0, ForceCloseReq), (cfg0, LocalClose)] (startArbitrator log0))
       = [StateBroadcastCommit, StateCommitmentBroadcasted, StateContractClosed, StateFullyResolved]
   \<and> follows (state (log (startArbitrator log0)))
        [StateBroadcastCommit, StateCommitmentBroadcasted, StateContractClosed, StateFullyResolved]
   \<and> state (log (startArbitrator log0)) \<noteq> StateFullyResolved
   \<and> \<not> isl (CommitState StateFullyResolved (log (startArbitrator log0)))
   \<and> committedSince (startArbitrator log0) (handleEvent cfg0 Breach (startArbitrator log0))
       = [StateFullyResolved]"
proof -
  have s: "arbState (startArbitrator log0) = state (log (startArbitrator log0))"
    by (simp add: startArbitrator_def CurrentState_def)
  have c: "committedSince (startArbitrator log0)
        (run [(cfg0, ForceCloseReq), (cfg0, LocalClose)] (startArbitrator log0))
       = [StateBroadcastCommit, StateCommitmentBroadcasted, StateContractClosed, StateFullyResolved]"
    unfolding committedSince_def run_local_force_close
    by (simp add: startArbitrator_def log0_def)
  have n: "state (log (startArbitrator log0)) \<noteq> StateFullyResolved"
    "\<not> isl (CommitState StateFullyResolved (log (startArbitrator log0)))"
    by (simp_all add: startArbitrator_def log0_def CommitState_def)
  from committed_states_follow_diagram [OF s, of "[(cfg0, ForceCloseReq), (cfg0, LocalClose)]" cfg0]
  show ?thesis using s c n by simp
qed




end
